theory Spec2Isabelle
  imports Main "HOL-Library.Sublist"
begin

section \<open>Python values used by the inference cell\<close>

text \<open>
  The notebook cell \<^verbatim>\<open>Step 5: Model Inference\<close> of
  \<^verbatim>\<open>br-custom-model-import-example.ipynb\<close> defines \<^verbatim>\<open>format_messages\<close> and
  \<^verbatim>\<open>send_prompt\<close>. Python \<^verbatim>\<open>str\<close> values are modelled as \<^typ>\<open>string\<close>, a
  message (\<^verbatim>\<open>dict[str, str]\<close>) as a partial map from keys to values, and a raised
  exception as a value of \<open>py_exception\<close>: a \<^verbatim>\<open>KeyError\<close> with its key, an instance
  of \<^verbatim>\<open>Exception\<close> itself with its message, an instance \<open>Error cls msg\<close> of any other
  subclass of \<^verbatim>\<open>Exception\<close>, or an instance \<open>BaseError cls msg\<close> of a class that derives
  from \<^verbatim>\<open>BaseException\<close> but not from \<^verbatim>\<open>Exception\<close> (\<^verbatim>\<open>KeyboardInterrupt\<close>,
  \<^verbatim>\<open>SystemExit\<close>, \<^verbatim>\<open>GeneratorExit\<close>).
\<close>

datatype py_exception =
    KeyError string
  | Exception string
  | Error string string
  | BaseError string string

text \<open>\<^verbatim>\<open>isinstance(e, Exception)\<close>: what \<^verbatim>\<open>except Exception\<close> catches.\<close>

fun is_Exception :: "py_exception \<Rightarrow> bool" where
  "is_Exception (BaseError cls m) = False"
| "is_Exception e = True"

type_synonym entry = "string \<rightharpoonup> string"

text \<open>\<^verbatim>\<open>str(e)\<close>: a \<^verbatim>\<open>KeyError\<close> prints the repr of its key, any other exception its message.\<close>

fun exc_str :: "py_exception \<Rightarrow> string" where
  "exc_str (KeyError k) = [CHR 0x27] @ k @ [CHR 0x27]"
| "exc_str (Exception m) = m"
| "exc_str (Error cls m) = m"
| "exc_str (BaseError cls m) = m"

subsection \<open>Decimal printing\<close>

definition digit_char :: "nat \<Rightarrow> char" where
  "digit_char d = ''0123456789'' ! d"

fun dec :: "nat \<Rightarrow> string" where
  "dec n = (if n < 10 then [digit_char n] else dec (n div 10) @ [digit_char (n mod 10)])"

declare dec.simps [simp del]

text \<open>\<^verbatim>\<open>str(i)\<close> for a Python \<^verbatim>\<open>int\<close>.\<close>

definition str_int :: "int \<Rightarrow> string" where
  "str_int i = (if i < 0 then ''-'' @ dec (nat (- i)) else dec (nat i))"

subsection \<open>\<^verbatim>\<open>datetime.now().strftime('%d %b %Y')\<close>\<close>

datatype month = Jan | Feb | Mar | Apr | May | Jun | Jul | Aug | Sep | Oct | Nov | Dec

record datetime =
  year :: nat
  month :: month
  day :: nat
  hour :: nat
  minute :: nat
  second :: nat
  microsecond :: nat

text \<open>\<^verbatim>\<open>%b\<close>: the abbreviated month name (C locale, the interpreter's default).\<close>

fun month_abbr :: "month \<Rightarrow> string" where
  "month_abbr Jan = ''Jan''"
| "month_abbr Feb = ''Feb''"
| "month_abbr Mar = ''Mar''"
| "month_abbr Apr = ''Apr''"
| "month_abbr May = ''May''"
| "month_abbr Jun = ''Jun''"
| "month_abbr Jul = ''Jul''"
| "month_abbr Aug = ''Aug''"
| "month_abbr Sep = ''Sep''"
| "month_abbr Oct = ''Oct''"
| "month_abbr Nov = ''Nov''"
| "month_abbr Dec = ''Dec''"

text \<open>Zero padding to a minimal width, as \<^verbatim>\<open>%d\<close> (width 2) and \<^verbatim>\<open>%Y\<close> (width 4) do.\<close>

definition zero_pad :: "nat \<Rightarrow> nat \<Rightarrow> string" where
  "zero_pad w n = replicate (w - length (dec n)) CHR ''0'' @ dec n"

definition strftime_d_b_Y :: "datetime \<Rightarrow> string" where
  "strftime_d_b_Y t = zero_pad 2 (day t) @ '' '' @ month_abbr (month t) @ '' '' @ zero_pad 4 (year t)"

section \<open>The prompt template renderer: \<^verbatim>\<open>format_messages\<close>\<close>

text \<open>
  \<^verbatim>\<open>system_prefix = f"\n\nCutting Knowledge Date: December 2024\nToday Date: {...}\n\n"\<close>,
  computed once before the loop from the clock reading \<open>now\<close>.
\<close>

definition system_prefix :: "datetime \<Rightarrow> string" where
  "system_prefix now =
     ''\<newline>\<newline>Cutting Knowledge Date: December 2024\<newline>Today Date: '' @ strftime_d_b_Y now @ ''\<newline>\<newline>''"

text \<open>
  The \<^verbatim>\<open>for\<close> loop over the messages, with the string built so far as accumulator.
  \<^verbatim>\<open>entry['role']\<close> and, for a system message, \<^verbatim>\<open>entry['content']\<close> raise
  \<^verbatim>\<open>KeyError\<close> on a missing key; the other branch tests \<^verbatim>\<open>'content' in entry\<close> first.
\<close>

fun format_loop :: "string \<Rightarrow> string \<Rightarrow> entry list \<Rightarrow> py_exception + string" where
  "format_loop sp output [] = Inr output"
| "format_loop sp output (entry # rest) =
     (case entry ''role'' of
        None \<Rightarrow> Inl (KeyError ''role'')
      | Some role \<Rightarrow>
          (let output = output @ ''<|start_header_id|>'' @ role @ ''<|end_header_id|>'' in
           if role = ''system'' then
             (case entry ''content'' of
                None \<Rightarrow> Inl (KeyError ''content'')
              | Some c \<Rightarrow> format_loop sp (output @ sp @ c @ ''<|eot_id|>'') rest)
           else if role \<noteq> ''system'' \<and> entry ''content'' \<noteq> None then
             format_loop sp (output @ ''\<newline>\<newline>'' @ the (entry ''content'') @ ''<|eot_id|>'') rest
           else format_loop sp output rest))"

definition format_messages :: "datetime \<Rightarrow> entry list \<Rightarrow> py_exception + string" where
  "format_messages now messages =
     (let output = ''<|begin_of_text|>'';
          sp = system_prefix now
      in case format_loop sp output messages of
           Inl e \<Rightarrow> Inl e
         | Inr output \<Rightarrow> Inr (output @ ''<|start_header_id|>assistant<|end_header_id|>\<newline>''))"

section \<open>The inference client: \<^verbatim>\<open>send_prompt\<close>\<close>

text \<open>
  The request handed to \<^verbatim>\<open>client.invoke_model\<close>. Its body is the dictionary given to
  \<^verbatim>\<open>json.dumps\<close>, kept as a JSON value with the keys in the order written; the float
  type \<open>'f\<close> of \<^verbatim>\<open>temperature\<close> and \<^verbatim>\<open>top_p\<close> is left abstract.
\<close>

datatype 'f json = JStr string | JInt int | JFloat 'f | JObject "(string \<times> 'f json) list"

record 'f request =
  modelId :: string
  body :: "'f json"
  accept :: string
  contentType :: string

type_synonym bytes = "char list"

text \<open>
  The response dictionary: under each key a stream, given by what its \<^verbatim>\<open>read()\<close>
  yields (the raw bytes, or an exception).
\<close>

type_synonym response = "string \<rightharpoonup> (py_exception + bytes)"

text \<open>
  What the cell takes from outside: the global \<^verbatim>\<open>model_id\<close>, the wall clock (the
  reading of \<^verbatim>\<open>datetime.now()\<close> after a number of seconds), whether
  \<^verbatim>\<open>boto3.Session().client(...)\<close> raises, the endpoint's answer to the \<open>n\<close>-th
  \<^verbatim>\<open>invoke_model\<close> call, and the library functions \<^verbatim>\<open>bytes.decode('utf-8')\<close> and
  \<^verbatim>\<open>json.loads\<close> (\<open>'r\<close> is the type of parsed JSON).
\<close>

record ('f, 'r) env =
  model_id :: string
  wall_clock :: "nat \<Rightarrow> datetime"
  create_client :: "py_exception option"
  invoke_model :: "nat \<Rightarrow> 'f request \<Rightarrow> py_exception + response"
  utf8_decode :: "bytes \<Rightarrow> py_exception + string"
  json_loads :: "string \<Rightarrow> py_exception + 'r"

text \<open>The observable effects, in order, and the seconds that have passed in \<^verbatim>\<open>time.sleep\<close>.\<close>

datatype 'f event = ClockRead nat | NewClient | Invoke "'f request" | Print string | Sleep nat

record 'f world =
  elapsed :: nat
  trace :: "'f event list"

fun is_Invoke :: "'f event \<Rightarrow> bool" where
  "is_Invoke (Invoke r) = True"
| "is_Invoke _ = False"

fun is_Print :: "'f event \<Rightarrow> bool" where
  "is_Print (Print s) = True"
| "is_Print _ = False"

fun is_Sleep :: "'f event \<Rightarrow> bool" where
  "is_Sleep (Sleep n) = True"
| "is_Sleep _ = False"

fun is_ClockRead :: "'f event \<Rightarrow> bool" where
  "is_ClockRead (ClockRead n) = True"
| "is_ClockRead _ = False"

definition invocations :: "'f world \<Rightarrow> nat" where
  "invocations w = length (filter is_Invoke (trace w))"

definition emit :: "'f event \<Rightarrow> 'f world \<Rightarrow> 'f world" where
  "emit ev w = w\<lparr>trace := trace w @ [ev]\<rparr>"

definition print :: "string \<Rightarrow> 'f world \<Rightarrow> 'f world" where
  "print line w = emit (Print line) w"

definition sleep :: "nat \<Rightarrow> 'f world \<Rightarrow> 'f world" where
  "sleep secs w = emit (Sleep secs) (w\<lparr>elapsed := elapsed w + secs\<rparr>)"

text \<open>The keyword arguments of \<^verbatim>\<open>client.invoke_model(...)\<close>.\<close>

definition build_request :: "('f, 'r) env \<Rightarrow> string \<Rightarrow> 'f \<Rightarrow> int \<Rightarrow> 'f \<Rightarrow> 'f request" where
  "build_request env frmt_input temperature max_tokens top_p =
     \<lparr>modelId = model_id env,
      body = JObject [(''prompt'', JStr frmt_input),
                      (''temperature'', JFloat temperature),
                      (''max_gen_len'', JInt max_tokens),
                      (''top_p'', JFloat top_p)],
      accept = ''application/json'',
      contentType = ''application/json''\<rparr>"

text \<open>\<^verbatim>\<open>json.loads(response['body'].read().decode('utf-8'))\<close>: each step may raise.\<close>

definition read_body :: "('f, 'r) env \<Rightarrow> response \<Rightarrow> py_exception + 'r" where
  "read_body env response =
     (case response ''body'' of
        None \<Rightarrow> Inl (KeyError ''body'')
      | Some stream \<Rightarrow>
          (case stream of
             Inl e \<Rightarrow> Inl e
           | Inr raw \<Rightarrow>
               (case utf8_decode env raw of
                  Inl e \<Rightarrow> Inl e
                | Inr text \<Rightarrow> json_loads env text)))"

text \<open>What the body of the \<^verbatim>\<open>try\<close> block comes to when it makes the \<open>n\<close>-th call.\<close>

definition attempt_result :: "('f, 'r) env \<Rightarrow> 'f request \<Rightarrow> nat \<Rightarrow> py_exception + 'r" where
  "attempt_result env request n =
     (case invoke_model env n request of
        Inl e \<Rightarrow> Inl e
      | Inr response \<Rightarrow> read_body env response)"

definition try_body ::
  "('f, 'r) env \<Rightarrow> string \<Rightarrow> 'f \<Rightarrow> int \<Rightarrow> 'f \<Rightarrow> 'f world \<Rightarrow> (py_exception + 'r) \<times> 'f world" where
  "try_body env frmt_input temperature max_tokens top_p w =
     (let request = build_request env frmt_input temperature max_tokens top_p
      in (attempt_result env request (invocations w), emit (Invoke request) w))"

text \<open>
  The \<^verbatim>\<open>while attempt < max_retries\<close> loop. A successful attempt returns from the
  function; \<^verbatim>\<open>except Exception as e\<close> prints, counts and sleeps unless the budget is
  used up, and lets through what is not an instance of \<^verbatim>\<open>Exception\<close>; after the loop the
  terminal exception is raised (the \<^verbatim>\<open>return response\<close> that follows it is
  unreachable).
\<close>

function retry_loop ::
  "('f, 'r) env \<Rightarrow> string \<Rightarrow> 'f \<Rightarrow> int \<Rightarrow> 'f \<Rightarrow> int \<Rightarrow> int \<Rightarrow> 'f world \<Rightarrow> (py_exception + 'r) \<times> 'f world" where
  "retry_loop env frmt_input temperature max_tokens top_p max_retries attempt w =
     (if attempt < max_retries then
        (case try_body env frmt_input temperature max_tokens top_p w of
           (Inr result, w1) \<Rightarrow> (Inr result, w1)
         | (Inl e, w1) \<Rightarrow>
             (if is_Exception e then
                (let w2 = print (''Attempt '' @ str_int (attempt + 1) @ '' failed: '' @ exc_str e) w1;
                     attempt = attempt + 1;
                     w3 = (if attempt < max_retries then sleep 30 w2 else w2)
                 in retry_loop env frmt_input temperature max_tokens top_p max_retries attempt w3)
              else (Inl e, w1)))
      else (Inl (Exception ''Failed to get response after maximum retries''), w))"
  by pat_completeness auto
termination
  by (relation "measure (\<lambda>(env, frmt_input, temperature, max_tokens, top_p, max_retries, attempt, w).
        nat (max_retries - attempt))") auto

declare retry_loop.simps [simp del]

text \<open>
  \<^verbatim>\<open>send_prompt\<close>: render (one clock reading), build the client, run the loop from
  \<^verbatim>\<open>attempt = 0\<close>. An exception of the rendering or of the client construction is
  outside the \<^verbatim>\<open>try\<close> block and leaves the function at once. The parameter
  \<^verbatim>\<open>continuation\<close> is never used.
\<close>

definition send_prompt ::
  "('f, 'r) env \<Rightarrow> entry list \<Rightarrow> 'f \<Rightarrow> int \<Rightarrow> 'f \<Rightarrow> bool \<Rightarrow> int \<Rightarrow> 'f world \<Rightarrow> (py_exception + 'r) \<times> 'f world" where
  "send_prompt env messages temperature max_tokens top_p continuation max_retries w =
     (let w0 = emit (ClockRead (elapsed w)) w in
      case format_messages (wall_clock env (elapsed w)) messages of
        Inl e \<Rightarrow> (Inl e, w0)
      | Inr frmt_input \<Rightarrow>
          (case create_client env of
             Some e \<Rightarrow> (Inl e, w0)
           | None \<Rightarrow>
               (let attempt = 0 in
                retry_loop env frmt_input temperature max_tokens top_p max_retries attempt
                  (emit NewClient w0))))"

section \<open>Vocabulary of the properties\<close>

subsection \<open>Occurrences of a marker in a string\<close>

text \<open>
  \<open>count_occ p xs\<close> is the number of positions of \<open>xs\<close> at which \<open>p\<close> starts. The
  two checks below are decided by evaluation on the literal markers of the template:
  \<open>no_cross p k\<close> says that no occurrence of \<open>p\<close> can begin before \<open>k\<close> and end inside
  it, \<open>no_start p k\<close> that none can begin inside \<open>k\<close>, whatever follows.
\<close>

fun count_occ :: "'a list \<Rightarrow> 'a list \<Rightarrow> nat" where
  "count_occ p [] = (if p = [] then 1 else 0)"
| "count_occ p (x # xs) = (if prefix p (x # xs) then 1 else 0) + count_occ p xs"

definition incomparable :: "'a list \<Rightarrow> 'a list \<Rightarrow> bool" where
  "incomparable a b = (\<not> prefix a b \<and> \<not> prefix b a)"

definition no_cross :: "'a list \<Rightarrow> 'a list \<Rightarrow> bool" where
  "no_cross p k = list_all (\<lambda>i. incomparable (drop i p) k) [1..<length p]"

definition no_start :: "'a list \<Rightarrow> 'a list \<Rightarrow> bool" where
  "no_start p k = list_all (\<lambda>i. incomparable p (drop i k)) [0..<length k]"

subsection \<open>Markers and conversations\<close>

definition start_header_id :: string where "start_header_id = ''<|start_header_id|>''"

definition end_header_id :: string where "end_header_id = ''<|end_header_id|>''"

definition eot_id :: string where "eot_id = ''<|eot_id|>''"

definition assistant_header :: string where
  "assistant_header = ''<|start_header_id|>assistant<|end_header_id|>''"

text \<open>The number of role headers of a rendered prompt: the occurrences of the header-open marker.\<close>

definition role_headers :: "string \<Rightarrow> nat" where
  "role_headers out = count_occ ''<|start_header_id|>'' out"

text \<open>
  \<open>alternating r r' ms\<close>: the messages carry content and their roles are
  \<open>r\<close>, \<open>r'\<close>, \<open>r\<close>, \<dots> in turn.
\<close>

fun alternating :: "string \<Rightarrow> string \<Rightarrow> entry list \<Rightarrow> bool" where
  "alternating r r' [] = True"
| "alternating r r' (m # ms) = (m ''role'' = Some r \<and> m ''content'' \<noteq> None \<and> alternating r' r ms)"

text \<open>
  The messages the loop gets through: those with a \<^verbatim>\<open>role\<close> key, and a \<^verbatim>\<open>content\<close> key
  when the role is \<^verbatim>\<open>system\<close>.
\<close>

definition renderable :: "entry \<Rightarrow> bool" where
  "renderable m = (case m ''role'' of None \<Rightarrow> False | Some r \<Rightarrow> r \<noteq> ''system'' \<or> m ''content'' \<noteq> None)"

subsection \<open>Example values\<close>

definition example_now :: datetime where
  "example_now = \<lparr>year = 2026, month = Nov, day = 3, hour = 4, minute = 55, second = 0, microsecond = 0\<rparr>"

definition example_system :: entry where
  "example_system = [''role'' \<mapsto> ''system'', ''content'' \<mapsto> ''You are helpful.'']"

definition example_user :: entry where
  "example_user = [''role'' \<mapsto> ''user'', ''content'' \<mapsto> ''What is 2+2?'']"

subsection \<open>Runs of the retry loop\<close>

text \<open>The exception raised after the loop.\<close>

definition retries_exhausted :: py_exception where
  "retries_exhausted = Exception ''Failed to get response after maximum retries''"

text \<open>
  What one failed attempt adds to the trace when the budget is \<open>k\<close>: the call, the
  printed line, and the sleep unless it was the last attempt of the budget.
  \<open>e i\<close> is the exception of attempt \<open>i\<close> (counted from 0).
\<close>

definition failed_attempt :: "'f request \<Rightarrow> nat \<Rightarrow> (nat \<Rightarrow> py_exception) \<Rightarrow> nat \<Rightarrow> 'f event list" where
  "failed_attempt req k e i =
     [Invoke req, Print (''Attempt '' @ str_int (int i + 1) @ '' failed: '' @ exc_str (e i))]
     @ (if i + 1 < k then [Sleep 30] else [])"

text \<open>The requests of the calls in a trace, in order.\<close>

fun requests :: "'f event list \<Rightarrow> 'f request list" where
  "requests [] = []"
| "requests (Invoke r # evs) = r # requests evs"
| "requests (ev # evs) = requests evs"

text \<open>A trace with the text of every printed line blanked.\<close>

fun redact :: "'f event \<Rightarrow> 'f event" where
  "redact (Print s) = Print []"
| "redact ev = ev"

text \<open>
  Two environments that differ at most in which instances of \<^verbatim>\<open>Exception\<close> their
  failing attempts raise: the same attempts raise an instance of \<^verbatim>\<open>Exception\<close>, and the
  others end alike (with the same result, or with the same exception that is not an
  instance of \<^verbatim>\<open>Exception\<close>).
\<close>

definition blur :: "py_exception \<Rightarrow> py_exception option" where
  "blur e = (if is_Exception e then None else Some e)"

definition same_outcomes :: "('f, 'r) env \<Rightarrow> ('f, 'r) env \<Rightarrow> bool" where
  "same_outcomes env env' =
     (model_id env' = model_id env \<and> wall_clock env' = wall_clock env \<and>
      create_client env' = create_client env \<and>
      (\<forall>request n. map_sum blur id (attempt_result env' request n)
                    = map_sum blur id (attempt_result env request n)))"

subsection \<open>An example client\<close>

text \<open>
  A client whose floats are written as text, whose decoder and parser accept everything,
  and whose endpoint is given by the answer to its \<open>n\<close>-th call.
\<close>

definition example_prompt :: string where
  "example_prompt = ''<|begin_of_text|><|start_header_id|>system<|end_header_id|>\<newline>\<newline>Cutting Knowledge Date: December 2024\<newline>Today Date: 03 Nov 2026\<newline>\<newline>You are helpful.<|eot_id|><|start_header_id|>user<|end_header_id|>\<newline>\<newline>What is 2+2?<|eot_id|><|start_header_id|>assistant<|end_header_id|>\<newline>''"

definition example_env :: "(nat \<Rightarrow> py_exception + response) \<Rightarrow> (string, string) env" where
  "example_env endpoint =
     \<lparr>model_id = ''imported-model'',
      wall_clock = (\<lambda>t. example_now),
      create_client = None,
      invoke_model = (\<lambda>n request. endpoint n),
      utf8_decode = Inr,
      json_loads = Inr\<rparr>"

definition always_timeout :: "nat \<Rightarrow> py_exception + response" where
  "always_timeout n = Inl (Error ''ReadTimeoutError'' ''Read timed out'')"

definition third_time_lucky :: "nat \<Rightarrow> py_exception + response" where
  "third_time_lucky n =
     (if n < 2 then Inl (Error ''ThrottlingException'' ''Too many requests'')
      else Inr [''body'' \<mapsto> Inr ''4''])"

definition fresh_world :: "string world" where
  "fresh_world = \<lparr>elapsed = 0, trace = []\<rparr>"

definition always_denied :: "nat \<Rightarrow> py_exception + response" where
  "always_denied n = Inl (Error ''AccessDeniedException'' ''You are not authorized to perform this action'')"

definition interrupted :: "nat \<Rightarrow> py_exception + response" where
  "interrupted n = Inl (BaseError ''KeyboardInterrupt'' [])"

text \<open>A wall clock that passes midnight of New Year's Eve twenty seconds after the start.\<close>

definition new_year_clock :: "nat \<Rightarrow> datetime" where
  "new_year_clock t =
     (if t < 20
      then \<lparr>year = 2026, month = Dec, day = 31, hour = 23, minute = 59, second = 40 + t, microsecond = 0\<rparr>
      else \<lparr>year = 2027, month = Jan, day = 1, hour = 0, minute = 0, second = t - 20, microsecond = 0\<rparr>)"

definition new_year_env :: "(string, string) env" where
  "new_year_env = (example_env third_time_lucky)\<lparr>wall_clock := new_year_clock\<rparr>"

definition new_year_prompt :: string where
  "new_year_prompt = ''<|begin_of_text|><|start_header_id|>system<|end_header_id|>\<newline>\<newline>Cutting Knowledge Date: December 2024\<newline>Today Date: 31 Dec 2026\<newline>\<newline>You are helpful.<|eot_id|><|start_header_id|>user<|end_header_id|>\<newline>\<newline>What is 2+2?<|eot_id|><|start_header_id|>assistant<|end_header_id|>\<newline>''"

section \<open>Counting occurrences across the pieces of a prompt\<close>

lemma incomparable_append: "incomparable a b \<Longrightarrow> \<not> prefix a (b @ zs)"
  by (auto simp: incomparable_def prefix_append)

lemma count_occ_sublist: "p \<noteq> [] \<Longrightarrow> count_occ p xs = 0 \<longleftrightarrow> \<not> sublist p xs"
  by (induction xs) (auto simp: sublist_Cons_right)

lemma count_occ_skip:
  assumes "p \<noteq> []" "hd p \<notin> set zs"
  shows "count_occ p (zs @ xs) = count_occ p xs"
  using assms
proof (induction zs)
  case Nil then show ?case by simp
next
  case (Cons z zs)
  then have "\<not> prefix p (z # zs @ xs)"
    by (cases p) auto
  with Cons show ?case by simp
qed

lemma count_occ_no_start:
  assumes "p \<noteq> []" "no_start p k"
  shows "count_occ p (k @ zs) = count_occ p zs"
  using assms
proof (induction k)
  case Nil then show ?case by simp
next
  case (Cons x k)
  from Cons.prems have all: "\<forall>i<Suc (length k). incomparable p (drop i (x # k))"
    unfolding no_start_def list_all_iff by (metis atLeast0LessThan length_Cons lessThan_iff set_upt)
  from all have i0: "incomparable p (x # k)" by force
  have "no_start p k"
    unfolding no_start_def list_all_iff
  proof
    fix i assume "i \<in> set [0..<length k]"
    then have "Suc i < Suc (length k)" by simp
    with all have "incomparable p (drop (Suc i) (x # k))" by blast
    then show "incomparable p (drop i k)" by simp
  qed
  with Cons have "count_occ p (k @ zs) = count_occ p zs" by simp
  moreover have "\<not> prefix p ((x # k) @ zs)" using i0 by (rule incomparable_append)
  ultimately show ?case by simp
qed

lemma no_crossD: "no_cross p k \<Longrightarrow> 0 < i \<Longrightarrow> i < length p \<Longrightarrow> incomparable (drop i p) k"
  by (simp add: no_cross_def list_all_iff)

lemma count_occ_no_cross:
  assumes "p \<noteq> []" "no_cross p k"
  shows "count_occ p (xs @ k @ zs) = count_occ p xs + count_occ p (k @ zs)"
proof (induction xs)
  case Nil
  from assms show ?case by simp
next
  case (Cons x xs)
  have "prefix p ((x # xs) @ k @ zs) \<longleftrightarrow> prefix p (x # xs)"
  proof
    assume "prefix p ((x # xs) @ k @ zs)"
    then consider "prefix p (x # xs)" | us where "p = (x # xs) @ us" "prefix us (k @ zs)"
      unfolding prefix_append by blast
    then show "prefix p (x # xs)"
    proof cases
      case 1 then show ?thesis .
    next
      case 2
      show ?thesis
      proof (cases "us = []")
        case True with 2 show ?thesis by simp
      next
        case False
        then obtain u us' where us: "us = u # us'" by (cases us) auto
        have "Suc (length xs) < length p"
          using 2(1) us by simp
        moreover have "drop (Suc (length xs)) p = us"
          using 2(1) by simp
        ultimately have "incomparable us k"
          using no_crossD [OF assms(2), of "Suc (length xs)"] by simp
        with 2(2) show ?thesis using incomparable_append by blast
      qed
    qed
  next
    assume "prefix p (x # xs)" then show "prefix p ((x # xs) @ k @ zs)"
      using prefix_prefix by fastforce
  qed
  with Cons show ?case by simp
qed

lemma count_occ_self: "p \<noteq> [] \<Longrightarrow> count_occ p (p @ ys) = 1 + count_occ p (tl p @ ys)"
  by (cases p) simp_all

lemma unique_occurrence:
  assumes "p \<noteq> []" "count_occ p xs = 1" "xs = a @ p @ b" "xs = a' @ p @ b'"
  shows "a = a' \<and> b = b'"
  using assms(2-)
proof (induction xs arbitrary: a a')
  case Nil
  with assms(1) show ?case by simp
next
  case (Cons x xs)
  have occ: "count_occ p (u @ p @ v) \<noteq> 0" for u v
    using count_occ_sublist [OF assms(1), of "u @ p @ v"] by (auto simp: sublist_def)
  show ?case
  proof (cases a)
    case Nil
    note a = this
    show ?thesis
    proof (cases a')
      case Nil
      with a Cons.prems show ?thesis by simp
    next
      case (Cons y ys)
      have "prefix p (x # xs)" using Cons.prems(2) a by (simp add: prefix_def)
      moreover have "xs = ys @ p @ b'" using Cons.prems(3) Cons by simp
      ultimately have "prefix p (x # xs)" "xs = ys @ p @ b'" .
      with Cons.prems(1) occ [of ys b'] show ?thesis by simp
    qed
  next
    case (Cons z zs)
    note a = this
    show ?thesis
    proof (cases a')
      case Nil
      have "prefix p (x # xs)" using Cons.prems(3) Nil by (simp add: prefix_def)
      moreover have "xs = zs @ p @ b" using Cons.prems(2) a by simp
      ultimately have "prefix p (x # xs)" "xs = zs @ p @ b" .
      with Cons.prems(1) occ [of zs b] show ?thesis by simp
    next
      case (Cons y ys)
      have xs: "xs = zs @ p @ b" "xs = ys @ p @ b'" "z = x" "y = x"
        using Cons.prems(2,3) a Cons by simp_all
      with Cons.prems(1) occ [of zs b] have "count_occ p xs = 1"
        by (simp split: if_splits)
      from Cons.IH [OF this xs(1,2)] a Cons xs show ?thesis by simp
    qed
  qed
qed

section \<open>The date preamble holds no marker\<close>

lemma digit_char_set: "d < 10 \<Longrightarrow> digit_char d \<in> set ''0123456789''"
  unfolding digit_char_def by (rule nth_mem) simp

lemma dec_set: "set (dec n) \<subseteq> set ''0123456789''"
proof (induction n rule: dec.induct)
  case (1 n)
  show ?case
  proof (cases "n < 10")
    case True
    then show ?thesis using digit_char_set [of n] by (subst dec.simps) simp
  next
    case False
    with 1 have "set (dec (n div 10)) \<subseteq> set ''0123456789''" by simp
    moreover have "digit_char (n mod 10) \<in> set ''0123456789''"
      by (rule digit_char_set) simp
    ultimately show ?thesis using False by (subst dec.simps) simp
  qed
qed

lemma strftime_no_lt: "CHR ''<'' \<notin> set (strftime_d_b_Y t)"
proof -
  have "CHR ''<'' \<notin> set (dec n)" for n using dec_set [of n] by auto
  moreover have "CHR ''<'' \<notin> set (month_abbr m)" for m by (cases m) simp_all
  ultimately show ?thesis by (auto simp: strftime_d_b_Y_def zero_pad_def)
qed

lemma system_prefix_no_lt: "CHR ''<'' \<notin> set (system_prefix t)"
  using strftime_no_lt [of t] by (simp add: system_prefix_def)

section \<open>Role headers emitted by the loop\<close>

lemma format_loop_Cons:
  "format_loop sp output (entry # rest) =
     (case entry ''role'' of
        None \<Rightarrow> Inl (KeyError ''role'')
      | Some role \<Rightarrow>
          (if role = ''system'' then
             (case entry ''content'' of
                None \<Rightarrow> Inl (KeyError ''content'')
              | Some c \<Rightarrow> format_loop sp (output @ (start_header_id @ role @ end_header_id) @ sp @ c @ eot_id) rest)
           else (case entry ''content'' of
                None \<Rightarrow> format_loop sp (output @ (start_header_id @ role @ end_header_id)) rest
              | Some c \<Rightarrow> format_loop sp (output @ (start_header_id @ role @ end_header_id) @ ''\<newline>\<newline>'' @ c @ eot_id) rest)))"
  by (auto simp add: start_header_id_def end_header_id_def eot_id_def Let_def split: option.splits)

lemma start_header_id_simps:
  "start_header_id \<noteq> []" "hd start_header_id = CHR ''<''" "CHR ''<'' \<notin> set (tl start_header_id)"
  by (simp_all add: start_header_id_def)

lemma no_cross_end: "no_cross start_header_id end_header_id"
  unfolding start_header_id_def end_header_id_def by code_simp

lemma no_start_end: "no_start start_header_id end_header_id"
  unfolding start_header_id_def end_header_id_def by code_simp

lemma no_cross_eot: "no_cross start_header_id eot_id"
  unfolding start_header_id_def eot_id_def by code_simp

lemma no_start_eot: "no_start start_header_id eot_id"
  unfolding start_header_id_def eot_id_def by code_simp

lemma header_count:
  assumes "\<not> sublist start_header_id r"
  shows "count_occ start_header_id ((start_header_id @ r @ end_header_id) @ X) = 1 + count_occ start_header_id X"
proof -
  let ?M = start_header_id
  have "count_occ ?M ((?M @ r @ end_header_id) @ X) = 1 + count_occ ?M (tl ?M @ r @ end_header_id @ X)"
    using count_occ_self [OF start_header_id_simps(1), of "r @ end_header_id @ X"] by simp
  also have "count_occ ?M (tl ?M @ r @ end_header_id @ X) = count_occ ?M (r @ end_header_id @ X)"
    by (rule count_occ_skip) (simp_all add: start_header_id_simps)
  also have "\<dots> = count_occ ?M r + count_occ ?M (end_header_id @ X)"
    by (rule count_occ_no_cross [OF start_header_id_simps(1) no_cross_end])
  also have "count_occ ?M r = 0"
    using assms count_occ_sublist [OF start_header_id_simps(1)] by simp
  also have "count_occ ?M (end_header_id @ X) = count_occ ?M X"
    by (rule count_occ_no_start [OF start_header_id_simps(1) no_start_end])
  finally show ?thesis by simp
qed

lemma content_count:
  assumes "CHR ''<'' \<notin> set pre" "\<not> sublist start_header_id c"
  shows "count_occ start_header_id (pre @ c @ eot_id @ X) = count_occ start_header_id X"
proof -
  let ?M = start_header_id
  have "count_occ ?M (pre @ c @ eot_id @ X) = count_occ ?M (c @ eot_id @ X)"
    by (rule count_occ_skip) (simp_all add: start_header_id_simps assms)
  also have "\<dots> = count_occ ?M c + count_occ ?M (eot_id @ X)"
    by (rule count_occ_no_cross [OF start_header_id_simps(1) no_cross_eot])
  also have "count_occ ?M c = 0"
    using assms count_occ_sublist [OF start_header_id_simps(1)] by simp
  also have "count_occ ?M (eot_id @ X) = count_occ ?M X"
    by (rule count_occ_no_start [OF start_header_id_simps(1) no_start_eot])
  finally show ?thesis by simp
qed

lemma format_loop_headers:
  assumes sp: "CHR ''<'' \<notin> set sp"
    and ok: "\<forall>m\<in>set ms. \<exists>r. m ''role'' = Some r \<and> \<not> sublist start_header_id r \<and>
              (r = ''system'' \<longrightarrow> m ''content'' \<noteq> None) \<and>
              (\<forall>c. m ''content'' = Some c \<longrightarrow> \<not> sublist start_header_id c)"
  shows "\<exists>body. format_loop sp out ms = Inr (out @ body) \<and>
           (\<forall>X. count_occ start_header_id (body @ X) = length ms + count_occ start_header_id X)"
  using ok
proof (induction ms arbitrary: out)
  case Nil
  then show ?case by simp
next
  case (Cons m ms)
  let ?M = start_header_id
  from Cons.prems obtain r where r: "m ''role'' = Some r" "\<not> sublist ?M r"
    "r = ''system'' \<longrightarrow> m ''content'' \<noteq> None"
    "\<forall>c. m ''content'' = Some c \<longrightarrow> \<not> sublist ?M c"
    by auto
  let ?H = "?M @ r @ end_header_id"
  define block where "block =
    (case m ''content'' of
       None \<Rightarrow> ?H
     | Some c \<Rightarrow> ?H @ (if r = ''system'' then sp else ''\<newline>\<newline>'') @ c @ eot_id)"
  have step: "format_loop sp out (m # ms) = format_loop sp (out @ block) ms"
    using r(1,3) by (auto simp: format_loop_Cons block_def simp del: format_loop.simps split: option.splits)
  have cnt: "count_occ ?M (block @ X) = 1 + count_occ ?M X" for X
  proof (cases "m ''content''")
    case None
    then show ?thesis using header_count [OF r(2)] by (simp add: block_def)
  next
    case (Some c)
    with r(4) have c: "\<not> sublist ?M c" by simp
    have pre: "CHR ''<'' \<notin> set (if r = ''system'' then sp else ''\<newline>\<newline>'')"
      using sp by simp
    have "count_occ ?M (block @ X) =
          count_occ ?M (?H @ ((if r = ''system'' then sp else ''\<newline>\<newline>'') @ c @ eot_id @ X))"
      using Some by (simp add: block_def)
    also have "\<dots> = 1 + count_occ ?M ((if r = ''system'' then sp else ''\<newline>\<newline>'') @ c @ eot_id @ X)"
      by (rule header_count [OF r(2)])
    also have "\<dots> = 1 + count_occ ?M X"
      using content_count [OF pre c] by simp
    finally show ?thesis .
  qed
  from Cons.prems have "\<forall>m\<in>set ms. \<exists>r. m ''role'' = Some r \<and> \<not> sublist ?M r \<and>
              (r = ''system'' \<longrightarrow> m ''content'' \<noteq> None) \<and>
              (\<forall>c. m ''content'' = Some c \<longrightarrow> \<not> sublist ?M c)"
    by simp
  from Cons.IH [OF this, of "out @ block"] obtain body where
    body: "format_loop sp (out @ block) ms = Inr ((out @ block) @ body)"
      "\<And>X. count_occ ?M (body @ X) = length ms + count_occ ?M X"
    by blast
  have "format_loop sp out (m # ms) = Inr (out @ (block @ body))"
    using step body(1) by simp
  moreover have "count_occ ?M ((block @ body) @ X) = length (m # ms) + count_occ ?M X" for X
    using cnt [of "body @ X"] body(2) [of X] by simp
  ultimately show ?case by blast
qed

lemma format_messages_headers:
  assumes ok: "\<forall>m\<in>set ms. \<exists>r. m ''role'' = Some r \<and> \<not> sublist start_header_id r \<and>
              (r = ''system'' \<longrightarrow> m ''content'' \<noteq> None) \<and>
              (\<forall>c. m ''content'' = Some c \<longrightarrow> \<not> sublist start_header_id c)"
  shows "\<exists>out. format_messages now ms = Inr out \<and> role_headers out = length ms + 1"
proof -
  let ?M = start_header_id
  from format_loop_headers [OF system_prefix_no_lt ok, of now "''<|begin_of_text|>''"]
  obtain body where
    body: "format_loop (system_prefix now) ''<|begin_of_text|>'' ms = Inr (''<|begin_of_text|>'' @ body)"
      "\<And>X. count_occ ?M (body @ X) = length ms + count_occ ?M X"
    by blast
  have b: "no_start ?M ''<|begin_of_text|>''"
    unfolding start_header_id_def by code_simp
  have e: "count_occ ?M ''<|start_header_id|>assistant<|end_header_id|>\<newline>'' = 1"
    unfolding start_header_id_def by code_simp
  have "count_occ ?M (''<|begin_of_text|>'' @ body @ ''<|start_header_id|>assistant<|end_header_id|>\<newline>'')
        = length ms + 1"
    using count_occ_no_start [OF start_header_id_simps(1) b] body(2) e by simp
  then show ?thesis
    using body(1) by (simp add: format_messages_def role_headers_def start_header_id_def)
qed

lemma no_lt_no_header: "CHR ''<'' \<notin> set r \<Longrightarrow> \<not> sublist start_header_id r"
proof
  assume a: "CHR ''<'' \<notin> set r" and b: "sublist start_header_id r"
  from b have "set start_header_id \<subseteq> set r" by (rule set_mono_sublist)
  with a show False by (simp add: start_header_id_def)
qed

lemma alternating_roles:
  "alternating r r' ms \<Longrightarrow> m \<in> set ms \<Longrightarrow> (m ''role'' = Some r \<or> m ''role'' = Some r') \<and> m ''content'' \<noteq> None"
  by (induction r r' ms rule: alternating.induct) auto

lemma assistant_header_simps:
  "assistant_header \<noteq> []" "hd assistant_header = CHR ''<''"
  by (simp_all add: assistant_header_def)

lemma single_turn_count:
  assumes "sys ''role'' = Some ''system''" and "sys ''content'' = Some s"
    and "usr ''role'' = Some ''user''" and "usr ''content'' = Some u"
    and s: "\<not> sublist assistant_header s" and u: "\<not> sublist assistant_header u"
  shows "\<exists>pre. format_messages now [sys, usr] = Inr (pre @ assistant_header @ ''\<newline>'') \<and>
           count_occ assistant_header (pre @ assistant_header @ ''\<newline>'') = 1 \<and>
           sublist (''<|start_header_id|>user<|end_header_id|>\<newline>\<newline>'' @ u) pre"
proof -
  let ?A = assistant_header
  define P1 :: string where "P1 = ''<|begin_of_text|><|start_header_id|>system<|end_header_id|>''"
  define K2 :: string where "K2 = ''<|eot_id|><|start_header_id|>user<|end_header_id|>\<newline>\<newline>''"
  define K3 :: string where "K3 = ''<|eot_id|><|start_header_id|>assistant<|end_header_id|>\<newline>''"
  let ?sp = "system_prefix now"
  have p1: "no_start ?A P1" unfolding assistant_header_def P1_def by code_simp
  have k2c: "no_cross ?A K2" unfolding assistant_header_def K2_def by code_simp
  have k2s: "no_start ?A K2" unfolding assistant_header_def K2_def by code_simp
  have k3c: "no_cross ?A K3" unfolding assistant_header_def K3_def by code_simp
  have k3: "count_occ ?A K3 = 1" unfolding assistant_header_def K3_def by code_simp
  have cs: "count_occ ?A s = 0" and cu: "count_occ ?A u = 0"
    using s u count_occ_sublist [OF assistant_header_simps(1)] by simp_all
  have out: "format_messages now [sys, usr] = Inr (P1 @ ?sp @ s @ K2 @ u @ K3)"
    using assms(1-4) by (simp add: format_messages_def P1_def K2_def K3_def)
  have "count_occ ?A (P1 @ ?sp @ s @ K2 @ u @ K3) = count_occ ?A (?sp @ s @ K2 @ u @ K3)"
    by (rule count_occ_no_start [OF assistant_header_simps(1) p1])
  also have "\<dots> = count_occ ?A (s @ K2 @ u @ K3)"
    by (rule count_occ_skip) (simp_all add: assistant_header_simps system_prefix_no_lt)
  also have "\<dots> = count_occ ?A s + count_occ ?A (K2 @ u @ K3)"
    by (rule count_occ_no_cross [OF assistant_header_simps(1) k2c])
  also have "count_occ ?A (K2 @ u @ K3) = count_occ ?A (u @ K3)"
    by (rule count_occ_no_start [OF assistant_header_simps(1) k2s])
  also have "count_occ ?A (u @ K3) = count_occ ?A u + count_occ ?A K3"
    using count_occ_no_cross [OF assistant_header_simps(1) k3c, of u "[]"] by simp
  finally have cnt: "count_occ ?A (P1 @ ?sp @ s @ K2 @ u @ K3) = 1"
    using cs cu k3 by simp
  define pre where "pre = P1 @ ?sp @ s @ K2 @ u @ ''<|eot_id|>''"
  have eq: "P1 @ ?sp @ s @ K2 @ u @ K3 = pre @ ?A @ ''\<newline>''"
    by (simp add: pre_def K3_def assistant_header_def)
  have "sublist (''<|start_header_id|>user<|end_header_id|>\<newline>\<newline>'' @ u) pre"
    unfolding sublist_def pre_def K2_def
    by (rule exI [of _ "P1 @ ?sp @ s @ ''<|eot_id|>''"], rule exI [of _ "''<|eot_id|>''"]) simp
  with out cnt eq show ?thesis by auto
qed

lemma format_loop_renderable:
  "(\<exists>s. format_loop sp out ms = Inr s) = list_all renderable ms"
  by (induction ms arbitrary: out) (auto simp: renderable_def Let_def split: option.splits)

section \<open>Unfolding the retry loop\<close>

lemma retry_loop_done:
  "\<not> attempt < max_retries \<Longrightarrow>
   retry_loop env p t m tp max_retries attempt w = (Inl retries_exhausted, w)"
  by (subst retry_loop.simps) (simp add: retries_exhausted_def)

lemma retry_loop_return:
  "attempt < max_retries \<Longrightarrow>
   attempt_result env (build_request env p t m tp) (invocations w) = Inr r \<Longrightarrow>
   retry_loop env p t m tp max_retries attempt w = (Inr r, emit (Invoke (build_request env p t m tp)) w)"
  by (subst retry_loop.simps) (simp add: try_body_def)

lemma retry_loop_escape:
  "attempt < max_retries \<Longrightarrow>
   attempt_result env (build_request env p t m tp) (invocations w) = Inl e \<Longrightarrow>
   \<not> is_Exception e \<Longrightarrow>
   retry_loop env p t m tp max_retries attempt w = (Inl e, emit (Invoke (build_request env p t m tp)) w)"
  by (subst retry_loop.simps) (simp add: try_body_def)

lemma retry_loop_except:
  "attempt < max_retries \<Longrightarrow>
   attempt_result env (build_request env p t m tp) (invocations w) = Inl e \<Longrightarrow>
   is_Exception e \<Longrightarrow>
   retry_loop env p t m tp max_retries attempt w =
   retry_loop env p t m tp max_retries (attempt + 1)
     (let w2 = print (''Attempt '' @ str_int (attempt + 1) @ '' failed: '' @ exc_str e)
                 (emit (Invoke (build_request env p t m tp)) w)
      in if attempt + 1 < max_retries then sleep 30 w2 else w2)"
  by (subst retry_loop.simps) (simp add: try_body_def Let_def)

lemma invocations_simps [simp]:
  "invocations (emit ev w) = invocations w + (if is_Invoke ev then 1 else 0)"
  "invocations (print s w) = invocations w"
  "invocations (sleep n w) = invocations w"
  by (simp_all add: invocations_def emit_def print_def sleep_def)

lemma retry_loop_all_fail:
  assumes "\<forall>i. a \<le> i \<and> i < k \<longrightarrow> attempt_result env (build_request env p t m tp) (n0 + i) = Inl (e i)"
    and "\<forall>i. a \<le> i \<and> i < k \<longrightarrow> is_Exception (e i)"
    and "invocations w = n0 + a" and "a \<le> k"
  shows "retry_loop env p t m tp (int k) (int a) w =
           (Inl retries_exhausted,
            w\<lparr>elapsed := elapsed w + 30 * (k - 1 - a),
              trace := trace w @ concat (map (failed_attempt (build_request env p t m tp) k e) [a..<k])\<rparr>)"
  using assms
proof (induction "k - a" arbitrary: a w)
  case 0
  then have "a = k" by simp
  then show ?case by (simp add: retry_loop_done)
next
  case (Suc d)
  let ?req = "build_request env p t m tp"
  from Suc.hyps(2) have lt: "a < k" by simp
  with Suc.prems have fail: "attempt_result env ?req (invocations w) = Inl (e a)" by simp
  from lt Suc.prems have exc: "is_Exception (e a)" by simp
  define w3 where "w3 = (let w2 = print (''Attempt '' @ str_int (int a + 1) @ '' failed: '' @ exc_str (e a))
                 (emit (Invoke ?req) w)
      in if int a + 1 < int k then sleep 30 w2 else w2)"
  have step: "retry_loop env p t m tp (int k) (int a) w = retry_loop env p t m tp (int k) (int (Suc a)) w3"
  proof -
    have "int a < int k" using lt by simp
    from retry_loop_except [OF this fail exc] have
      "retry_loop env p t m tp (int k) (int a) w = retry_loop env p t m tp (int k) (int a + 1) w3"
      unfolding w3_def .
    moreover have "int a + 1 = int (Suc a)" by simp
    ultimately show ?thesis by (simp only:)
  qed
  have w3: "w3 = w\<lparr>elapsed := elapsed w + (if Suc a < k then 30 else 0),
                    trace := trace w @ failed_attempt ?req k e a\<rparr>"
    by (simp add: w3_def Let_def print_def emit_def sleep_def failed_attempt_def)
  have inv: "invocations w3 = n0 + Suc a"
    using Suc.prems(3) by (simp add: w3_def Let_def)
  have "retry_loop env p t m tp (int k) (int (Suc a)) w3 =
           (Inl retries_exhausted,
            w3\<lparr>elapsed := elapsed w3 + 30 * (k - 1 - Suc a),
              trace := trace w3 @ concat (map (failed_attempt ?req k e) [Suc a..<k])\<rparr>)"
    using Suc.hyps(2) Suc.prems(1,2) lt by (intro Suc.hyps(1) inv) auto
  moreover have "[a..<k] = a # [Suc a..<k]" using lt by (simp add: upt_conv_Cons)
  moreover have "(if Suc a < k then 30 else 0) + 30 * (k - 1 - Suc a) = 30 * (k - 1 - a)"
    using lt by auto
  ultimately show ?case unfolding step by (simp add: w3)
qed

lemma retry_loop_stops:
  assumes "\<forall>i. a \<le> i \<and> i < s \<longrightarrow> attempt_result env (build_request env p t m tp) (n0 + i) = Inl (e i)"
    and "\<forall>i. a \<le> i \<and> i < s \<longrightarrow> is_Exception (e i)"
    and "attempt_result env (build_request env p t m tp) (n0 + s) = fin"
    and "\<forall>x. fin = Inl x \<longrightarrow> \<not> is_Exception x"
    and "invocations w = n0 + a" and "a \<le> s" and "s < k"
  shows "retry_loop env p t m tp (int k) (int a) w =
           (fin,
            w\<lparr>elapsed := elapsed w + 30 * (s - a),
              trace := trace w @ concat (map (failed_attempt (build_request env p t m tp) k e) [a..<s])
                         @ [Invoke (build_request env p t m tp)]\<rparr>)"
  using assms
proof (induction "s - a" arbitrary: a w)
  case 0
  then have a: "a = s" and lt: "int a < int k" by simp_all
  show ?case
  proof (cases fin)
    case (Inr r)
    with 0 a retry_loop_return [OF lt, of env p t m tp w r] show ?thesis
      by (simp add: emit_def)
  next
    case (Inl x)
    with 0 a retry_loop_escape [OF lt, of env p t m tp w x] show ?thesis
      by (simp add: emit_def)
  qed
next
  case (Suc d)
  let ?req = "build_request env p t m tp"
  from Suc.hyps(2) have lt: "a < s" by simp
  with Suc.prems have lk: "Suc a < k" by simp
  from lt Suc.prems have fail: "attempt_result env ?req (invocations w) = Inl (e a)" by simp
  from lt Suc.prems have exc: "is_Exception (e a)" by simp
  define w3 where "w3 = (let w2 = print (''Attempt '' @ str_int (int a + 1) @ '' failed: '' @ exc_str (e a))
                 (emit (Invoke ?req) w)
      in if int a + 1 < int k then sleep 30 w2 else w2)"
  have step: "retry_loop env p t m tp (int k) (int a) w = retry_loop env p t m tp (int k) (int (Suc a)) w3"
  proof -
    have "int a < int k" using lt Suc.prems by simp
    from retry_loop_except [OF this fail exc] have
      "retry_loop env p t m tp (int k) (int a) w = retry_loop env p t m tp (int k) (int a + 1) w3"
      unfolding w3_def .
    moreover have "int a + 1 = int (Suc a)" by simp
    ultimately show ?thesis by (simp only:)
  qed
  have w3: "w3 = w\<lparr>elapsed := elapsed w + 30, trace := trace w @ failed_attempt ?req k e a\<rparr>"
    using lk by (simp add: w3_def Let_def print_def emit_def sleep_def failed_attempt_def)
  have inv: "invocations w3 = n0 + Suc a"
    using Suc.prems(5) by (simp add: w3_def Let_def)
  have "retry_loop env p t m tp (int k) (int (Suc a)) w3 =
           (fin,
            w3\<lparr>elapsed := elapsed w3 + 30 * (s - Suc a),
              trace := trace w3 @ concat (map (failed_attempt ?req k e) [Suc a..<s]) @ [Invoke ?req]\<rparr>)"
    using Suc.hyps(2) Suc.prems(1,2,3,4,7) lt by (intro Suc.hyps(1) inv) auto
  moreover have "[a..<s] = a # [Suc a..<s]" using lt by (simp add: upt_conv_Cons)
  moreover have "30 + 30 * (s - Suc a) = 30 * (s - a)"
    using lt by auto
  ultimately show ?case unfolding step by (simp add: w3)
qed

section \<open>What failed attempts leave in the trace\<close>

lemma failed_attempts_invokes:
  "length (filter is_Invoke (concat (map (failed_attempt req k e) xs))) = length xs"
  by (induction xs) (simp_all add: failed_attempt_def)

lemma failed_attempts_prints:
  "length (filter is_Print (concat (map (failed_attempt req k e) xs))) = length xs"
  by (induction xs) (simp_all add: failed_attempt_def)

lemma failed_attempts_sleeps_inner:
  "\<forall>i\<in>set xs. i + 1 < k \<Longrightarrow>
   filter is_Sleep (concat (map (failed_attempt req k e) xs)) = replicate (length xs) (Sleep 30)"
  by (induction xs) (simp_all add: failed_attempt_def)

lemma failed_attempts_sleeps:
  "filter is_Sleep (concat (map (failed_attempt req k e) [0..<k])) = replicate (k - 1) (Sleep 30)"
proof (cases k)
  case 0
  then show ?thesis by simp
next
  case (Suc j)
  have "filter is_Sleep (concat (map (failed_attempt req k e) [0..<j])) = replicate (length [0..<j]) (Sleep 30)"
    by (rule failed_attempts_sleeps_inner) (simp add: Suc)
  moreover have "filter is_Sleep (failed_attempt req k e j) = []"
    by (simp add: failed_attempt_def Suc)
  ultimately show ?thesis by (simp add: Suc)
qed

lemma failed_attempts_events:
  "ev \<in> set (concat (map (failed_attempt req k e) xs)) \<Longrightarrow> ev = Invoke req \<or> is_Print ev \<or> ev = Sleep 30"
  by (induction xs) (auto simp: failed_attempt_def split: if_splits)

lemma failed_attempts_last:
  "0 < k \<Longrightarrow> last (concat (map (failed_attempt req k e) [0..<k])) =
     Print (''Attempt '' @ str_int (int k) @ '' failed: '' @ exc_str (e (k - 1)))"
  by (cases k) (simp_all add: failed_attempt_def add.commute)

section \<open>The two ways a call can end\<close>

lemma send_prompt_all_fail:
  assumes "format_messages (wall_clock env (elapsed w)) messages = Inr p"
    and "create_client env = None"
    and "\<forall>i<k. attempt_result env (build_request env p t m tp) (invocations w + i) = Inl (e i)"
    and "\<forall>i<k. is_Exception (e i)"
  shows "send_prompt env messages t m tp c (int k) w =
           (Inl retries_exhausted,
            w\<lparr>elapsed := elapsed w + 30 * (k - 1),
              trace := trace w @ [ClockRead (elapsed w), NewClient]
                         @ concat (map (failed_attempt (build_request env p t m tp) k e) [0..<k])\<rparr>)"
proof -
  let ?w1 = "emit NewClient (emit (ClockRead (elapsed w)) w)"
  have "retry_loop env p t m tp (int k) (int 0) ?w1 =
           (Inl retries_exhausted,
            ?w1\<lparr>elapsed := elapsed ?w1 + 30 * (k - 1 - 0),
              trace := trace ?w1 @ concat (map (failed_attempt (build_request env p t m tp) k e) [0..<k])\<rparr>)"
    using assms(3,4) by (intro retry_loop_all_fail [where ?n0.0 = "invocations w"]) simp_all
  then show ?thesis
    using assms(1,2) by (simp add: send_prompt_def emit_def)
qed

lemma send_prompt_stops:
  assumes "format_messages (wall_clock env (elapsed w)) messages = Inr p"
    and "create_client env = None"
    and "\<forall>i<s. attempt_result env (build_request env p t m tp) (invocations w + i) = Inl (e i)"
    and "\<forall>i<s. is_Exception (e i)"
    and "attempt_result env (build_request env p t m tp) (invocations w + s) = fin"
    and "\<forall>x. fin = Inl x \<longrightarrow> \<not> is_Exception x"
    and "s < k"
  shows "send_prompt env messages t m tp c (int k) w =
           (fin,
            w\<lparr>elapsed := elapsed w + 30 * s,
              trace := trace w @ [ClockRead (elapsed w), NewClient]
                         @ concat (map (failed_attempt (build_request env p t m tp) k e) [0..<s])
                         @ [Invoke (build_request env p t m tp)]\<rparr>)"
proof -
  let ?w1 = "emit NewClient (emit (ClockRead (elapsed w)) w)"
  have "retry_loop env p t m tp (int k) (int 0) ?w1 =
           (fin,
            ?w1\<lparr>elapsed := elapsed ?w1 + 30 * (s - 0),
              trace := trace ?w1 @ concat (map (failed_attempt (build_request env p t m tp) k e) [0..<s])
                         @ [Invoke (build_request env p t m tp)]\<rparr>)"
    using assms(3,4,5,6,7) by (intro retry_loop_stops [where ?n0.0 = "invocations w"]) simp_all
  then show ?thesis
    using assms(1,2) by (simp add: send_prompt_def emit_def)
qed

lemma send_prompt_succeeds:
  assumes "format_messages (wall_clock env (elapsed w)) messages = Inr p"
    and "create_client env = None"
    and "\<forall>i<s. attempt_result env (build_request env p t m tp) (invocations w + i) = Inl (e i)"
    and "\<forall>i<s. is_Exception (e i)"
    and "attempt_result env (build_request env p t m tp) (invocations w + s) = Inr r"
    and "s < k"
  shows "send_prompt env messages t m tp c (int k) w =
           (Inr r,
            w\<lparr>elapsed := elapsed w + 30 * s,
              trace := trace w @ [ClockRead (elapsed w), NewClient]
                         @ concat (map (failed_attempt (build_request env p t m tp) k e) [0..<s])
                         @ [Invoke (build_request env p t m tp)]\<rparr>)"
  by (rule send_prompt_stops [OF assms(1-5) _ assms(6)]) simp

lemma send_prompt_cases:
  assumes fm: "format_messages (wall_clock env (elapsed w)) messages = Inr p"
    and cc: "create_client env = None"
  shows "(\<exists>e. (\<forall>i<nat k. attempt_result env (build_request env p t m tp) (invocations w + i) = Inl (e i)) \<and>
            (\<forall>i<nat k. is_Exception (e i)) \<and>
            send_prompt env messages t m tp c k w =
              (Inl retries_exhausted,
               w\<lparr>elapsed := elapsed w + 30 * (nat k - 1),
                 trace := trace w @ [ClockRead (elapsed w), NewClient]
                            @ concat (map (failed_attempt (build_request env p t m tp) (nat k) e) [0..<nat k])\<rparr>))
       \<or> (\<exists>e s fin. s < nat k \<and>
            (\<forall>i<s. attempt_result env (build_request env p t m tp) (invocations w + i) = Inl (e i)) \<and>
            (\<forall>i<s. is_Exception (e i)) \<and>
            attempt_result env (build_request env p t m tp) (invocations w + s) = fin \<and>
            (\<forall>x. fin = Inl x \<longrightarrow> \<not> is_Exception x) \<and>
            send_prompt env messages t m tp c k w =
              (fin,
               w\<lparr>elapsed := elapsed w + 30 * s,
                 trace := trace w @ [ClockRead (elapsed w), NewClient]
                            @ concat (map (failed_attempt (build_request env p t m tp) (nat k) e) [0..<s])
                            @ [Invoke (build_request env p t m tp)]\<rparr>))"
proof (cases "0 < k")
  case False
  then have "send_prompt env messages t m tp c k w =
      (Inl retries_exhausted, emit NewClient (emit (ClockRead (elapsed w)) w))"
    using fm cc by (simp add: send_prompt_def retry_loop_done)
  with False show ?thesis by (simp add: emit_def)
next
  case True
  then have k: "k = int (nat k)" by simp
  let ?req = "build_request env p t m tp"
  let ?F = "\<lambda>i. attempt_result env ?req (invocations w + i)"
  let ?e = "\<lambda>i. projl (?F i)"
  let ?retried = "\<lambda>i. isl (?F i) \<and> is_Exception (?e i)"
  show ?thesis
  proof (cases "\<forall>i<nat k. ?retried i")
    case True
    then have all: "\<forall>i<nat k. ?F i = Inl (?e i)" and exc: "\<forall>i<nat k. is_Exception (?e i)"
      by simp_all
    from send_prompt_all_fail [OF fm cc all exc, of c] k all exc show ?thesis
      by (intro disjI1 exI [of _ ?e]) simp
  next
    case False
    define s where "s = (LEAST i. \<not> ?retried i)"
    from False obtain j where j: "j < nat k" "\<not> ?retried j" by blast
    from j(2) have s: "\<not> ?retried s"
      unfolding s_def by (rule LeastI [of "\<lambda>i. \<not> ?retried i"])
    from j(2) have sj: "s \<le> j"
      unfolding s_def by (rule Least_le [of "\<lambda>i. \<not> ?retried i"])
    have retried: "?retried i" if "i < s" for i
      using not_less_Least [of i "\<lambda>i. \<not> ?retried i"] that unfolding s_def by blast
    then have before: "\<forall>i<s. ?F i = Inl (?e i)" and exc: "\<forall>i<s. is_Exception (?e i)"
      by simp_all
    from s have fin: "\<forall>x. ?F s = Inl x \<longrightarrow> \<not> is_Exception x" by auto
    from sj j have sk: "s < nat k" by simp
    from send_prompt_stops [OF fm cc before exc refl fin sk, of c] k before exc fin sk show ?thesis
      by (intro disjI2 exI [of _ ?e] exI [of _ s] exI [of _ "?F s"]) simp
  qed
qed

lemma example_prompt_rendered:
  "format_messages example_now [example_system, example_user] = Inr example_prompt"
  by code_simp

lemma send_prompt_trace:
  assumes fm: "format_messages (wall_clock env (elapsed w)) messages = Inr p"
    and cc: "create_client env = None"
    and run: "send_prompt env messages t m tp c k w = (res, w')"
  shows "\<exists>e s last_call. trace w' = trace w @ [ClockRead (elapsed w), NewClient]
                  @ concat (map (failed_attempt (build_request env p t m tp) (nat k) e) [0..<s])
                  @ last_call \<and>
               (last_call = [] \<or> last_call = [Invoke (build_request env p t m tp)])"
  using send_prompt_cases [OF fm cc, of k t m tp c]
proof (elim disjE exE conjE)
  fix e
  assume "send_prompt env messages t m tp c k w =
              (Inl retries_exhausted,
               w\<lparr>elapsed := elapsed w + 30 * (nat k - 1),
                 trace := trace w @ [ClockRead (elapsed w), NewClient]
                            @ concat (map (failed_attempt (build_request env p t m tp) (nat k) e) [0..<nat k])\<rparr>)"
  with run show ?thesis by (intro exI [of _ e] exI [of _ "nat k"] exI [of _ "[]"]) auto
next
  fix e s fin
  assume "send_prompt env messages t m tp c k w =
              (fin,
               w\<lparr>elapsed := elapsed w + 30 * s,
                 trace := trace w @ [ClockRead (elapsed w), NewClient]
                            @ concat (map (failed_attempt (build_request env p t m tp) (nat k) e) [0..<s])
                            @ [Invoke (build_request env p t m tp)]\<rparr>)"
  with run show ?thesis
    by (intro exI [of _ e] exI [of _ s] exI [of _ "[Invoke (build_request env p t m tp)]"]) auto
qed

lemma failed_attempts_clock:
  "filter is_ClockRead (concat (map (failed_attempt req k e) xs)) = []"
  by (induction xs) (simp_all add: failed_attempt_def)

lemma requests_set: "r \<in> set (requests evs) \<longleftrightarrow> Invoke r \<in> set evs"
  by (induction evs rule: requests.induct) auto

lemma new_year_prompt_rendered:
  "format_messages (new_year_clock 0) [example_system, example_user] = Inr new_year_prompt"
  by code_simp

section \<open>The class of an exception does not matter\<close>

lemma is_Invoke_redact [simp]: "is_Invoke (redact ev) = is_Invoke ev"
  by (cases ev) simp_all

lemma invocations_redact:
  assumes "map redact (trace w') = map redact (trace w)"
  shows "invocations w' = invocations w"
proof -
  have "length (filter is_Invoke (map redact xs)) = length (filter is_Invoke xs)" for xs :: "'a event list"
    by (induction xs) simp_all
  from this [of "trace w'"] this [of "trace w"] assms show ?thesis
    by (simp add: invocations_def)
qed

lemma retry_loop_blind:
  assumes so: "same_outcomes env env'"
    and "elapsed w' = elapsed w" and "map redact (trace w') = map redact (trace w)"
  shows "fst (retry_loop env' p t m tp k a w') = fst (retry_loop env p t m tp k a w) \<and>
         elapsed (snd (retry_loop env' p t m tp k a w')) = elapsed (snd (retry_loop env p t m tp k a w)) \<and>
         map redact (trace (snd (retry_loop env' p t m tp k a w')))
           = map redact (trace (snd (retry_loop env p t m tp k a w)))"
  using assms(2,3)
proof (induction "nat (k - a)" arbitrary: a w w')
  case 0
  then have "\<not> a < k" by simp
  with 0 show ?case by (simp add: retry_loop_done)
next
  case (Suc d)
  then have lt: "a < k" by simp
  let ?req = "build_request env p t m tp"
  from so have req: "build_request env' p t m tp = ?req"
    by (simp add: build_request_def same_outcomes_def)
  from Suc.prems have inv: "invocations w' = invocations w" by (intro invocations_redact)
  from so have agree: "map_sum blur id (attempt_result env' ?req (invocations w))
                    = map_sum blur id (attempt_result env ?req (invocations w))"
    by (simp add: same_outcomes_def)
  show ?case
  proof (cases "attempt_result env ?req (invocations w)")
    case (Inr r)
    with agree have "attempt_result env' ?req (invocations w) = Inr r"
      by (cases "attempt_result env' ?req (invocations w)") simp_all
    with Inr lt Suc.prems inv req show ?thesis
      using retry_loop_return [of a k env p t m tp w r] retry_loop_return [of a k env' p t m tp w' r]
      by (simp add: emit_def)
  next
    case (Inl e)
    with agree obtain e' where e': "attempt_result env' ?req (invocations w) = Inl e'"
      and b: "blur e' = blur e"
      by (cases "attempt_result env' ?req (invocations w)") simp_all
    show ?thesis
    proof (cases "is_Exception e")
      case False
      with b have "e' = e" by (simp add: blur_def split: if_splits)
      with False Inl e' lt Suc.prems inv req show ?thesis
        using retry_loop_escape [of a k env p t m tp w e] retry_loop_escape [of a k env' p t m tp w' e]
        by (simp add: emit_def)
    next
      case True
      with b have exc': "is_Exception e'" by (simp add: blur_def split: if_splits)
      define v where "v = (let w2 = print (''Attempt '' @ str_int (a + 1) @ '' failed: '' @ exc_str e)
                   (emit (Invoke ?req) w)
        in if a + 1 < k then sleep 30 w2 else w2)"
      define v' where "v' = (let w2 = print (''Attempt '' @ str_int (a + 1) @ '' failed: '' @ exc_str e')
                   (emit (Invoke ?req) w')
        in if a + 1 < k then sleep 30 w2 else w2)"
      have s1: "retry_loop env p t m tp k a w = retry_loop env p t m tp k (a + 1) v"
        using retry_loop_except [OF lt Inl True] by (simp add: v_def)
      have s2: "retry_loop env' p t m tp k a w' = retry_loop env' p t m tp k (a + 1) v'"
        using retry_loop_except [of a k env' p t m tp w' e'] lt e' exc' inv req by (simp add: v'_def)
      have rel: "elapsed v' = elapsed v" "map redact (trace v') = map redact (trace v)"
        using Suc.prems by (simp_all add: v_def v'_def Let_def print_def emit_def sleep_def)
      have "d = nat (k - (a + 1))" using Suc.hyps(2) by simp
      from Suc.hyps(1) [OF this rel] show ?thesis by (simp only: s1 s2)
    qed
  qed
qed

lemma send_prompt_blind:
  assumes so: "same_outcomes env env'"
  shows "fst (send_prompt env' messages t m tp c k w) = fst (send_prompt env messages t m tp c k w) \<and>
         elapsed (snd (send_prompt env' messages t m tp c k w)) = elapsed (snd (send_prompt env messages t m tp c k w)) \<and>
         map redact (trace (snd (send_prompt env' messages t m tp c k w)))
           = map redact (trace (snd (send_prompt env messages t m tp c k w)))"
proof -
  from so have eq: "wall_clock env' = wall_clock env" "create_client env' = create_client env"
    by (simp_all add: same_outcomes_def)
  show ?thesis
  proof (cases "format_messages (wall_clock env (elapsed w)) messages")
    case (Inl x)
    then show ?thesis by (simp add: send_prompt_def eq)
  next
    case (Inr p)
    show ?thesis
    proof (cases "create_client env")
      case (Some x)
      with Inr show ?thesis by (simp add: send_prompt_def eq)
    next
      case None
      with Inr retry_loop_blind [OF so refl refl, of p t m tp k 0 "emit NewClient (emit (ClockRead (elapsed w)) w)"]
      show ?thesis by (simp add: send_prompt_def eq)
    qed
  qed
qed

section \<open>Properties of the renderer\<close>

text \<open>
  Claim C4, amended. For a conversation of one system message followed by \<open>N\<close> messages
  that alternate between user and assistant, every message carrying content, and no
  content containing the marker \<^verbatim>\<open><|start_header_id|>\<close>, \<^verbatim>\<open>format_messages\<close> returns a
  prompt with exactly \<open>N + 2\<close> role headers: one for the system message, one for each
  later message and the trailing open assistant header.
\<close>

theorem role_header_count:
  assumes "sys ''role'' = Some ''system''" and "sys ''content'' \<noteq> None"
    and "alternating ''user'' ''assistant'' turns"
    and "\<forall>m\<in>set (sys # turns). \<forall>c. m ''content'' = Some c \<longrightarrow> \<not> sublist ''<|start_header_id|>'' c"
  shows "\<exists>out. format_messages now (sys # turns) = Inr out \<and> role_headers out = length turns + 2"
proof -
  have "\<exists>r. m ''role'' = Some r \<and> \<not> sublist start_header_id r \<and>
              (r = ''system'' \<longrightarrow> m ''content'' \<noteq> None) \<and>
              (\<forall>c. m ''content'' = Some c \<longrightarrow> \<not> sublist start_header_id c)"
    if "m \<in> set (sys # turns)" for m
  proof -
    from that assms(4) have c: "\<forall>c. m ''content'' = Some c \<longrightarrow> \<not> sublist start_header_id c"
      unfolding start_header_id_def by blast
    from that consider "m = sys" | "m \<in> set turns" by auto
    then show ?thesis
    proof cases
      case 1
      with assms(1,2) c show ?thesis by (simp add: no_lt_no_header)
    next
      case 2
      from alternating_roles [OF assms(3) 2] c show ?thesis
        by (auto simp: no_lt_no_header)
    qed
  qed
  then have "\<exists>out. format_messages now (sys # turns) = Inr out \<and> role_headers out = length (sys # turns) + 1"
    by (intro format_messages_headers) blast
  then show ?thesis by simp
qed

text \<open>The amended C4 on a conversation with three turns after the system message.\<close>

theorem role_header_count_witness:
  "\<exists>out. format_messages example_now
           [example_system, example_user,
            [''role'' \<mapsto> ''assistant'', ''content'' \<mapsto> ''4''],
            [''role'' \<mapsto> ''user'', ''content'' \<mapsto> ''Thanks'']] = Inr out \<and>
         role_headers out = 5"
proof -
  have a: "\<not> sublist ''<|start_header_id|>'' ''You are helpful.''"
    and b: "\<not> sublist ''<|start_header_id|>'' ''What is 2+2?''"
    and c: "\<not> sublist ''<|start_header_id|>'' ''4''"
    and d: "\<not> sublist ''<|start_header_id|>'' ''Thanks''"
    by code_simp+
  have "\<exists>out. format_messages example_now
           (example_system # [example_user,
            [''role'' \<mapsto> ''assistant'', ''content'' \<mapsto> ''4''],
            [''role'' \<mapsto> ''user'', ''content'' \<mapsto> ''Thanks'']]) = Inr out \<and>
         role_headers out = length [example_user,
            [''role'' \<mapsto> ''assistant'', ''content'' \<mapsto> ''4''],
            [''role'' \<mapsto> ''user'', ''content'' \<mapsto> ''Thanks'']] + 2"
    by (rule role_header_count) (simp_all add: example_system_def example_user_def a b c d)
  then show ?thesis by (simp add: eval_nat_numeral)
qed

text \<open>
  C4 as first stated fails: content is copied verbatim, so a user message whose content
  is itself a role header makes a conversation with \<open>N = 1\<close> render with four role
  headers rather than three.
\<close>

theorem role_header_count_counterexample:
  "format_messages example_now
     [[''role'' \<mapsto> ''system'', ''content'' \<mapsto> ''s''],
      [''role'' \<mapsto> ''user'', ''content'' \<mapsto> ''<|start_header_id|>user<|end_header_id|>'']]
   = Inr ''<|begin_of_text|><|start_header_id|>system<|end_header_id|>\<newline>\<newline>Cutting Knowledge Date: December 2024\<newline>Today Date: 03 Nov 2026\<newline>\<newline>s<|eot_id|><|start_header_id|>user<|end_header_id|>\<newline>\<newline><|start_header_id|>user<|end_header_id|><|eot_id|><|start_header_id|>assistant<|end_header_id|>\<newline>''
   \<and> role_headers ''<|begin_of_text|><|start_header_id|>system<|end_header_id|>\<newline>\<newline>Cutting Knowledge Date: December 2024\<newline>Today Date: 03 Nov 2026\<newline>\<newline>s<|eot_id|><|start_header_id|>user<|end_header_id|>\<newline>\<newline><|start_header_id|>user<|end_header_id|><|eot_id|><|start_header_id|>assistant<|end_header_id|>\<newline>'' = 4"
  by code_simp

text \<open>
  Claim C5, amended. For a conversation of one system message followed by one user
  message, neither content containing the assistant header
  \<^verbatim>\<open><|start_header_id|>assistant<|end_header_id|>\<close>, the rendered prompt ends with that
  header followed by a newline; this is its only occurrence (whichever way the prompt is
  split around an assistant header, only the newline follows it, so no \<^verbatim>\<open><|eot_id|>\<close>
  closes it); and the prompt contains the user header, two newlines and then the user
  content.
\<close>

theorem single_turn_open_header:
  assumes "sys ''role'' = Some ''system''" and "sys ''content'' = Some s"
    and "usr ''role'' = Some ''user''" and "usr ''content'' = Some u"
    and "\<not> sublist assistant_header s" and "\<not> sublist assistant_header u"
  shows "\<exists>out. format_messages now [sys, usr] = Inr out \<and>
           suffix (assistant_header @ ''\<newline>'') out \<and>
           (\<forall>pre post. out = pre @ assistant_header @ post \<longrightarrow> post = ''\<newline>'') \<and>
           sublist (''<|start_header_id|>user<|end_header_id|>\<newline>\<newline>'' @ u) out"
proof -
  from single_turn_count [OF assms, of now] obtain pre0 where
    out: "format_messages now [sys, usr] = Inr (pre0 @ assistant_header @ ''\<newline>'')" and
    cnt: "count_occ assistant_header (pre0 @ assistant_header @ ''\<newline>'') = 1" and
    usr: "sublist (''<|start_header_id|>user<|end_header_id|>\<newline>\<newline>'' @ u) pre0"
    by blast
  let ?out = "pre0 @ assistant_header @ ''\<newline>''"
  have "suffix (assistant_header @ ''\<newline>'') ?out"
    by (simp add: suffix_def)
  moreover have "post = ''\<newline>''" if "?out = pre @ assistant_header @ post" for pre post
    using unique_occurrence [OF assistant_header_simps(1) cnt refl that] by simp
  moreover have "sublist (''<|start_header_id|>user<|end_header_id|>\<newline>\<newline>'' @ u) ?out"
    using usr sublist_order.order_trans [OF _ sublist_append_rightI] by blast
  ultimately show ?thesis using out by blast
qed

text \<open>
  The amended C5 on the conversation of the specification's example: the system message
  "You are helpful." and the user message "What is 2+2?".
\<close>

theorem single_turn_open_header_witness:
  "format_messages example_now [example_system, example_user]
   = Inr ''<|begin_of_text|><|start_header_id|>system<|end_header_id|>\<newline>\<newline>Cutting Knowledge Date: December 2024\<newline>Today Date: 03 Nov 2026\<newline>\<newline>You are helpful.<|eot_id|><|start_header_id|>user<|end_header_id|>\<newline>\<newline>What is 2+2?<|eot_id|><|start_header_id|>assistant<|end_header_id|>\<newline>''
   \<and> suffix ''<|start_header_id|>assistant<|end_header_id|>\<newline>'' ''<|begin_of_text|><|start_header_id|>system<|end_header_id|>\<newline>\<newline>Cutting Knowledge Date: December 2024\<newline>Today Date: 03 Nov 2026\<newline>\<newline>You are helpful.<|eot_id|><|start_header_id|>user<|end_header_id|>\<newline>\<newline>What is 2+2?<|eot_id|><|start_header_id|>assistant<|end_header_id|>\<newline>''
   \<and> sublist ''<|start_header_id|>user<|end_header_id|>\<newline>\<newline>What is 2+2?'' ''<|begin_of_text|><|start_header_id|>system<|end_header_id|>\<newline>\<newline>Cutting Knowledge Date: December 2024\<newline>Today Date: 03 Nov 2026\<newline>\<newline>You are helpful.<|eot_id|><|start_header_id|>user<|end_header_id|>\<newline>\<newline>What is 2+2?<|eot_id|><|start_header_id|>assistant<|end_header_id|>\<newline>''"
proof -
  have a: "\<not> sublist assistant_header ''You are helpful.''"
    and b: "\<not> sublist assistant_header ''What is 2+2?''"
    by code_simp+
  have ev: "format_messages example_now [example_system, example_user]
   = Inr ''<|begin_of_text|><|start_header_id|>system<|end_header_id|>\<newline>\<newline>Cutting Knowledge Date: December 2024\<newline>Today Date: 03 Nov 2026\<newline>\<newline>You are helpful.<|eot_id|><|start_header_id|>user<|end_header_id|>\<newline>\<newline>What is 2+2?<|eot_id|><|start_header_id|>assistant<|end_header_id|>\<newline>''"
    by code_simp
  from single_turn_open_header [of example_system "''You are helpful.''" example_user "''What is 2+2?''" example_now, OF _ _ _ _ a b]
  show ?thesis
    unfolding ev by (simp add: example_system_def example_user_def assistant_header_def)
qed

text \<open>
  C5 as first stated fails: a user message whose content is the assistant header renders
  to a prompt with two assistant headers, the first of them closed by \<^verbatim>\<open><|eot_id|>\<close>.
\<close>

theorem single_turn_open_header_counterexample:
  "format_messages example_now
     [[''role'' \<mapsto> ''system'', ''content'' \<mapsto> ''s''],
      [''role'' \<mapsto> ''user'', ''content'' \<mapsto> ''<|start_header_id|>assistant<|end_header_id|>'']]
   = Inr ''<|begin_of_text|><|start_header_id|>system<|end_header_id|>\<newline>\<newline>Cutting Knowledge Date: December 2024\<newline>Today Date: 03 Nov 2026\<newline>\<newline>s<|eot_id|><|start_header_id|>user<|end_header_id|>\<newline>\<newline><|start_header_id|>assistant<|end_header_id|><|eot_id|><|start_header_id|>assistant<|end_header_id|>\<newline>''
   \<and> count_occ assistant_header ''<|begin_of_text|><|start_header_id|>system<|end_header_id|>\<newline>\<newline>Cutting Knowledge Date: December 2024\<newline>Today Date: 03 Nov 2026\<newline>\<newline>s<|eot_id|><|start_header_id|>user<|end_header_id|>\<newline>\<newline><|start_header_id|>assistant<|end_header_id|><|eot_id|><|start_header_id|>assistant<|end_header_id|>\<newline>'' = 2
   \<and> sublist (assistant_header @ ''<|eot_id|>'') ''<|begin_of_text|><|start_header_id|>system<|end_header_id|>\<newline>\<newline>Cutting Knowledge Date: December 2024\<newline>Today Date: 03 Nov 2026\<newline>\<newline>s<|eot_id|><|start_header_id|>user<|end_header_id|>\<newline>\<newline><|start_header_id|>assistant<|end_header_id|><|eot_id|><|start_header_id|>assistant<|end_header_id|>\<newline>''"
  by code_simp

text \<open>
  Claim C6. The rendered prompt depends on the clock reading only through its calendar
  date: two readings on the same day (year, month and day equal), at whatever time of
  day, render every conversation to the same string.
\<close>

theorem format_messages_date_only:
  "year a = year b \<Longrightarrow> month a = month b \<Longrightarrow> day a = day b \<Longrightarrow>
   format_messages a ms = format_messages b ms"
  by (simp add: format_messages_def system_prefix_def strftime_d_b_Y_def)

text \<open>C6 on the example conversation, early in the morning and in the last microsecond of the day.\<close>

theorem format_messages_date_only_witness:
  "format_messages example_now [example_system, example_user]
   = format_messages (example_now\<lparr>hour := 23, minute := 59, second := 59, microsecond := 999999\<rparr>) [example_system, example_user]"
  by (rule format_messages_date_only) (simp_all add: example_now_def)

text \<open>
  Claim C7, amended. \<^verbatim>\<open>format_messages\<close> validates neither the role values nor their
  order: it returns a string exactly when every message has a \<^verbatim>\<open>role\<close> key and every
  message whose role is \<^verbatim>\<open>system\<close> has a \<^verbatim>\<open>content\<close> key, whatever the roles are and in
  whatever order they come.
\<close>

theorem format_messages_returns_iff:
  "(\<exists>s. format_messages now ms = Inr s) = list_all renderable ms"
  using format_loop_renderable [of "system_prefix now" "''<|begin_of_text|>''" ms]
  by (auto simp: format_messages_def split: sum.splits)

text \<open>
  The amended C7 on a conversation that starts with an assistant message without
  content, uses the illegal role \<^verbatim>\<open>tool\<close>, has two system messages that do not lead, and
  ends with an assistant message.
\<close>

theorem format_messages_returns_iff_witness:
  "\<exists>s. format_messages example_now
      [[''role'' \<mapsto> ''assistant''],
       [''role'' \<mapsto> ''tool'', ''content'' \<mapsto> ''x''],
       example_system,
       example_system,
       [''role'' \<mapsto> ''assistant'', ''content'' \<mapsto> ''bye'']] = Inr s"
  unfolding format_messages_returns_iff
  by (simp add: renderable_def example_system_def)

text \<open>
  C7 as first stated fails: a system message without content makes
  \<^verbatim>\<open>entry['content']\<close> raise \<^verbatim>\<open>KeyError\<close>.
\<close>

theorem format_messages_system_without_content:
  "format_messages example_now [[''role'' \<mapsto> ''system'']] = Inl (KeyError ''content'')"
  by (simp add: format_messages_def)

text \<open>
  Claim C10. For the empty message list \<^verbatim>\<open>format_messages\<close> raises nothing and returns
  exactly the begin-of-text marker followed by the open assistant header and a newline,
  whatever the clock reads.
\<close>

theorem format_messages_empty:
  "format_messages now [] = Inr ''<|begin_of_text|><|start_header_id|>assistant<|end_header_id|>\<newline>''"
  by (simp add: format_messages_def)

section \<open>Properties of the client\<close>

text \<open>
  Claim C1. Let the retry budget be \<open>k \<ge> 1\<close> and let every attempt fail (attempt \<open>i\<close>,
  counted from 0, with the exception \<open>e i\<close>, an instance of \<^verbatim>\<open>Exception\<close>), the
  rendering and the client construction having succeeded. Then \<^verbatim>\<open>send_prompt\<close> raises the terminal exception
  "Failed to get response after maximum retries" and returns no result; it has called
  the endpoint exactly \<open>k\<close> times and slept 30 seconds exactly \<open>k - 1\<close> times; the last
  thing it did was to print the failure of attempt \<open>k\<close>, so no sleep follows the final
  failed attempt.
\<close>

theorem send_prompt_exhausts:
  assumes "1 \<le> k"
    and "format_messages (wall_clock env (elapsed w)) messages = Inr p"
    and "create_client env = None"
    and "\<forall>i<k. attempt_result env (build_request env p temperature max_tokens top_p) (invocations w + i) = Inl (e i)"
    and "\<forall>i<k. is_Exception (e i)"
  shows "\<exists>w' new.
           send_prompt env messages temperature max_tokens top_p continuation (int k) w =
             (Inl (Exception ''Failed to get response after maximum retries''), w') \<and>
           trace w' = trace w @ new \<and>
           new = [ClockRead (elapsed w), NewClient]
                 @ concat (map (failed_attempt (build_request env p temperature max_tokens top_p) k e) [0..<k]) \<and>
           length (filter is_Invoke new) = k \<and>
           filter is_Sleep new = replicate (k - 1) (Sleep 30) \<and>
           last new = Print (''Attempt '' @ str_int (int k) @ '' failed: '' @ exc_str (e (k - 1))) \<and>
           elapsed w' = elapsed w + 30 * (k - 1)"
proof -
  let ?req = "build_request env p temperature max_tokens top_p"
  let ?fs = "concat (map (failed_attempt ?req k e) [0..<k])"
  let ?new = "[ClockRead (elapsed w), NewClient] @ ?fs"
  have ne: "?fs \<noteq> []" using assms(1) by (cases k) (simp_all add: failed_attempt_def)
  have "length (filter is_Invoke ?new) = k"
    by (simp add: failed_attempts_invokes)
  moreover have "filter is_Sleep ?new = replicate (k - 1) (Sleep 30)"
    by (simp add: failed_attempts_sleeps)
  moreover have "last ?new = Print (''Attempt '' @ str_int (int k) @ '' failed: '' @ exc_str (e (k - 1)))"
    using ne failed_attempts_last [of k ?req e] assms(1) by simp
  ultimately show ?thesis
    using send_prompt_all_fail [OF assms(2,3,4,5), of continuation]
    by (simp add: retries_exhausted_def)
qed

text \<open>C1 with a budget of three against an endpoint that always times out.\<close>

theorem send_prompt_exhausts_witness:
  "fst (send_prompt (example_env always_timeout) [example_system, example_user] ''0.3'' 1000 ''0.9'' False 3 fresh_world)
     = Inl (Exception ''Failed to get response after maximum retries'') \<and>
   invocations (snd (send_prompt (example_env always_timeout) [example_system, example_user] ''0.3'' 1000 ''0.9'' False 3 fresh_world)) = 3 \<and>
   filter is_Sleep (trace (snd (send_prompt (example_env always_timeout) [example_system, example_user] ''0.3'' 1000 ''0.9'' False 3 fresh_world)))
     = [Sleep 30, Sleep 30] \<and>
   is_Print (last (trace (snd (send_prompt (example_env always_timeout) [example_system, example_user] ''0.3'' 1000 ''0.9'' False 3 fresh_world))))"
proof -
  have a: "(1::nat) \<le> 3" by simp
  have b: "format_messages (wall_clock (example_env always_timeout) (elapsed fresh_world)) [example_system, example_user]
           = Inr example_prompt"
    by (simp add: example_env_def example_prompt_rendered)
  have c: "create_client (example_env always_timeout) = None"
    by (simp add: example_env_def)
  have d: "\<forall>i<3. attempt_result (example_env always_timeout)
            (build_request (example_env always_timeout) example_prompt ''0.3'' 1000 ''0.9'')
            (invocations fresh_world + i) = Inl ((\<lambda>i. Error ''ReadTimeoutError'' ''Read timed out'') i)"
    by (simp add: attempt_result_def example_env_def always_timeout_def)
  have x: "\<forall>i<3. is_Exception ((\<lambda>i. Error ''ReadTimeoutError'' ''Read timed out'') i)"
    by simp
  from send_prompt_exhausts [OF a b c d x, of False] obtain w' new where
    r: "send_prompt (example_env always_timeout) [example_system, example_user] ''0.3'' 1000 ''0.9'' False 3 fresh_world
         = (Inl (Exception ''Failed to get response after maximum retries''), w')"
    and t: "trace w' = trace fresh_world @ new"
    and i: "length (filter is_Invoke new) = 3"
    and s: "filter is_Sleep new = replicate (3 - 1) (Sleep 30)"
    and l: "last new = Print (''Attempt '' @ str_int (int 3) @ '' failed: '' @ exc_str (Error ''ReadTimeoutError'' ''Read timed out''))"
    by auto
  from i have "new \<noteq> []" by auto
  with t i s l show ?thesis
    unfolding r by (simp add: fresh_world_def invocations_def eval_nat_numeral)
qed



text \<open>
  Claim C3, amended. An instance of \<^verbatim>\<open>Exception\<close> raised during an attempt never leaves
  \<^verbatim>\<open>send_prompt\<close>. If a call raises \<open>x\<close>, then either \<open>x\<close> is the terminal exception,
  the endpoint was called as often as the budget allows and one line was printed for
  each of these calls; or no call was made at all and \<open>x\<close> comes from the rendering or
  from the construction of the client, both outside the \<^verbatim>\<open>try\<close> block; or \<open>x\<close> is not
  an instance of \<^verbatim>\<open>Exception\<close> and was raised by an attempt. And the instances of
  \<^verbatim>\<open>Exception\<close> are all treated alike: against two environments in which the same
  attempts raise an instance of \<^verbatim>\<open>Exception\<close>, of whatever class and message, raised
  by \<^verbatim>\<open>invoke_model\<close>, by reading the body, by decoding or by parsing, and whose other
  attempts end alike, \<^verbatim>\<open>send_prompt\<close> gives the same result, sleeps as long and leaves
  the same trace up to the text of the printed lines.
\<close>

theorem attempt_errors_swallowed:
  "(send_prompt env messages temperature max_tokens top_p continuation max_retries w = (Inl x, w') \<longrightarrow>
      (x = Exception ''Failed to get response after maximum retries'' \<and>
       invocations w' = invocations w + nat max_retries \<and>
       length (filter is_Print (trace w')) = length (filter is_Print (trace w)) + nat max_retries)
      \<or> (invocations w' = invocations w \<and>
          (format_messages (wall_clock env (elapsed w)) messages = Inl x \<or> create_client env = Some x))
      \<or> (\<not> is_Exception x \<and>
          (\<exists>p n. format_messages (wall_clock env (elapsed w)) messages = Inr p \<and>
                 attempt_result env (build_request env p temperature max_tokens top_p) n = Inl x)))
   \<and> (same_outcomes env env' \<longrightarrow>
        fst (send_prompt env' messages temperature max_tokens top_p continuation max_retries w)
          = fst (send_prompt env messages temperature max_tokens top_p continuation max_retries w) \<and>
        elapsed (snd (send_prompt env' messages temperature max_tokens top_p continuation max_retries w))
          = elapsed (snd (send_prompt env messages temperature max_tokens top_p continuation max_retries w)) \<and>
        map redact (trace (snd (send_prompt env' messages temperature max_tokens top_p continuation max_retries w)))
          = map redact (trace (snd (send_prompt env messages temperature max_tokens top_p continuation max_retries w))))"
proof (intro conjI impI)
  assume run: "send_prompt env messages temperature max_tokens top_p continuation max_retries w = (Inl x, w')"
  show "(x = Exception ''Failed to get response after maximum retries'' \<and>
       invocations w' = invocations w + nat max_retries \<and>
       length (filter is_Print (trace w')) = length (filter is_Print (trace w)) + nat max_retries)
      \<or> (invocations w' = invocations w \<and>
          (format_messages (wall_clock env (elapsed w)) messages = Inl x \<or> create_client env = Some x))
      \<or> (\<not> is_Exception x \<and>
          (\<exists>p n. format_messages (wall_clock env (elapsed w)) messages = Inr p \<and>
                 attempt_result env (build_request env p temperature max_tokens top_p) n = Inl x))"
  proof (cases "format_messages (wall_clock env (elapsed w)) messages")
    case (Inl y)
    with run show ?thesis by (auto simp: send_prompt_def)
  next
    case (Inr p)
    note fm = this
    show ?thesis
    proof (cases "create_client env")
      case (Some y)
      with run fm show ?thesis by (auto simp: send_prompt_def)
    next
      case None
      let ?req = "build_request env p temperature max_tokens top_p"
      from send_prompt_cases [OF fm None, of max_retries temperature max_tokens top_p continuation]
      show ?thesis
      proof (elim disjE exE conjE)
        fix e
        assume "send_prompt env messages temperature max_tokens top_p continuation max_retries w =
              (Inl retries_exhausted,
               w\<lparr>elapsed := elapsed w + 30 * (nat max_retries - 1),
                 trace := trace w @ [ClockRead (elapsed w), NewClient]
                            @ concat (map (failed_attempt ?req (nat max_retries) e) [0..<nat max_retries])\<rparr>)"
        with run have "x = retries_exhausted"
          "w' = w\<lparr>elapsed := elapsed w + 30 * (nat max_retries - 1),
                 trace := trace w @ [ClockRead (elapsed w), NewClient]
                            @ concat (map (failed_attempt ?req (nat max_retries) e) [0..<nat max_retries])\<rparr>"
          by simp_all
        then show ?thesis
          by (simp add: retries_exhausted_def invocations_def failed_attempts_invokes failed_attempts_prints)
      next
        fix e s fin
        assume at: "attempt_result env ?req (invocations w + s) = fin"
          and fin: "\<forall>x. fin = Inl x \<longrightarrow> \<not> is_Exception x"
          and "send_prompt env messages temperature max_tokens top_p continuation max_retries w =
              (fin,
               w\<lparr>elapsed := elapsed w + 30 * s,
                 trace := trace w @ [ClockRead (elapsed w), NewClient]
                            @ concat (map (failed_attempt ?req (nat max_retries) e) [0..<s])
                            @ [Invoke ?req]\<rparr>)"
        with run have "fin = Inl x" by simp
        with at fin fm show ?thesis by blast
      qed
    qed
  qed
next
  assume "same_outcomes env env'"
  from send_prompt_blind [OF this]
  show "fst (send_prompt env' messages temperature max_tokens top_p continuation max_retries w)
          = fst (send_prompt env messages temperature max_tokens top_p continuation max_retries w)"
    and "elapsed (snd (send_prompt env' messages temperature max_tokens top_p continuation max_retries w))
          = elapsed (snd (send_prompt env messages temperature max_tokens top_p continuation max_retries w))"
    and "map redact (trace (snd (send_prompt env' messages temperature max_tokens top_p continuation max_retries w)))
          = map redact (trace (snd (send_prompt env messages temperature max_tokens top_p continuation max_retries w)))"
    by blast+
qed

text \<open>
  The amended C3 with a budget of three: an endpoint that always refuses access is
  retried exactly as one that always times out.
\<close>

theorem attempt_errors_swallowed_witness:
  "fst (send_prompt (example_env always_denied) [example_system, example_user] ''0.3'' 1000 ''0.9'' False 3 fresh_world)
     = Inl (Exception ''Failed to get response after maximum retries'') \<and>
   invocations (snd (send_prompt (example_env always_denied) [example_system, example_user] ''0.3'' 1000 ''0.9'' False 3 fresh_world)) = 3 \<and>
   map redact (trace (snd (send_prompt (example_env always_timeout) [example_system, example_user] ''0.3'' 1000 ''0.9'' False 3 fresh_world)))
     = map redact (trace (snd (send_prompt (example_env always_denied) [example_system, example_user] ''0.3'' 1000 ''0.9'' False 3 fresh_world)))"
proof -
  let ?S = "send_prompt (example_env always_denied) [example_system, example_user] ''0.3'' 1000 ''0.9'' False 3 fresh_world"
  have fm: "format_messages (wall_clock (example_env always_denied) (elapsed fresh_world)) [example_system, example_user]
           = Inr example_prompt"
    by (simp add: example_env_def example_prompt_rendered)
  have cc: "create_client (example_env always_denied) = None"
    by (simp add: example_env_def)
  have d: "\<forall>i<3. attempt_result (example_env always_denied)
            (build_request (example_env always_denied) example_prompt ''0.3'' 1000 ''0.9'')
            (invocations fresh_world + i)
          = Inl ((\<lambda>i. Error ''AccessDeniedException'' ''You are not authorized to perform this action'') i)"
    by (simp add: attempt_result_def example_env_def always_denied_def)
  have x: "\<forall>i<3. is_Exception
            ((\<lambda>i. Error ''AccessDeniedException'' ''You are not authorized to perform this action'') i)"
    by simp
  from send_prompt_all_fail [OF fm cc d x, of False]
  obtain w' where raised: "?S = (Inl retries_exhausted, w')" by simp
  have so: "same_outcomes (example_env always_denied) (example_env always_timeout)"
    by (simp add: same_outcomes_def blur_def example_env_def attempt_result_def always_denied_def
        always_timeout_def)
  from attempt_errors_swallowed [of "example_env always_denied" "[example_system, example_user]" "''0.3''" 1000
      "''0.9''" False 3 fresh_world retries_exhausted w' "example_env always_timeout"]
    raised so fm cc
  show ?thesis by (simp add: fresh_world_def invocations_def retries_exhausted_def)
qed

text \<open>
  C3 as first stated fails for an exception class outside \<^verbatim>\<open>Exception\<close>: with a budget of
  three, a \<^verbatim>\<open>KeyboardInterrupt\<close> raised in the first call leaves \<^verbatim>\<open>send_prompt\<close> at once;
  nothing is printed, nothing is retried.
\<close>

theorem keyboard_interrupt_escapes:
  "send_prompt (example_env interrupted) [example_system, example_user] ''0.3'' 1000 ''0.9'' False 3 fresh_world
     = (Inl (BaseError ''KeyboardInterrupt'' []),
        \<lparr>elapsed = 0,
         trace = [ClockRead 0, NewClient,
                  Invoke (build_request (example_env interrupted) example_prompt ''0.3'' 1000 ''0.9'')]\<rparr>)"
proof -
  have fm: "format_messages (wall_clock (example_env interrupted) (elapsed fresh_world)) [example_system, example_user]
           = Inr example_prompt"
    by (simp add: example_env_def example_prompt_rendered)
  have cc: "create_client (example_env interrupted) = None"
    by (simp add: example_env_def)
  have at: "attempt_result (example_env interrupted)
              (build_request (example_env interrupted) example_prompt ''0.3'' 1000 ''0.9'')
              (invocations fresh_world + 0) = Inl (BaseError ''KeyboardInterrupt'' [])"
    by (simp add: attempt_result_def example_env_def interrupted_def)
  have "(0::nat) < 3" by simp
  from send_prompt_stops [OF fm cc _ _ at _ this, of undefined False]
  show ?thesis by (simp add: fresh_world_def)
qed

text \<open>
  Claim C8. Every request that a call of \<^verbatim>\<open>send_prompt\<close> sends has as body the object
  with exactly the fields \<^verbatim>\<open>prompt\<close>, \<^verbatim>\<open>temperature\<close>, \<^verbatim>\<open>max_gen_len\<close> and \<^verbatim>\<open>top_p\<close>,
  where \<^verbatim>\<open>prompt\<close> is what \<^verbatim>\<open>format_messages\<close> made of the conversation and the other
  three are the caller's parameters; and a returned value is the parsed JSON of the
  UTF-8 decoding of the body that the endpoint sent in answer to one of these requests.
\<close>

theorem request_body_fields:
  assumes "send_prompt env messages temperature max_tokens top_p continuation max_retries w = (res, w')"
  shows "\<exists>new. trace w' = trace w @ new \<and>
           (\<forall>req. Invoke req \<in> set new \<longrightarrow>
              (\<exists>p. format_messages (wall_clock env (elapsed w)) messages = Inr p \<and>
                   body req = JObject [(''prompt'', JStr p),
                                       (''temperature'', JFloat temperature),
                                       (''max_gen_len'', JInt max_tokens),
                                       (''top_p'', JFloat top_p)])) \<and>
           (\<forall>r. res = Inr r \<longrightarrow>
              (\<exists>n req response raw text.
                 Invoke req \<in> set new \<and>
                 invoke_model env n req = Inr response \<and>
                 response ''body'' = Some (Inr raw) \<and>
                 utf8_decode env raw = Inr text \<and>
                 json_loads env text = Inr r))"
proof (cases "format_messages (wall_clock env (elapsed w)) messages")
  case (Inl x)
  with assms have "res = Inl x" "trace w' = trace w @ [ClockRead (elapsed w)]"
    by (auto simp: send_prompt_def emit_def)
  then show ?thesis by simp
next
  case (Inr p)
  note fm = this
  show ?thesis
  proof (cases "create_client env")
    case (Some x)
    with assms fm have "res = Inl x" "trace w' = trace w @ [ClockRead (elapsed w)]"
      by (auto simp: send_prompt_def emit_def)
    then show ?thesis by simp
  next
    case None
    let ?req = "build_request env p temperature max_tokens top_p"
    have body: "body ?req = JObject [(''prompt'', JStr p),
                                       (''temperature'', JFloat temperature),
                                       (''max_gen_len'', JInt max_tokens),
                                       (''top_p'', JFloat top_p)]"
      by (simp add: build_request_def)
    from send_prompt_cases [OF fm None, of max_retries temperature max_tokens top_p continuation]
    show ?thesis
    proof (elim disjE exE conjE)
      fix e
      assume run: "send_prompt env messages temperature max_tokens top_p continuation max_retries w =
              (Inl retries_exhausted,
               w\<lparr>elapsed := elapsed w + 30 * (nat max_retries - 1),
                 trace := trace w @ [ClockRead (elapsed w), NewClient]
                            @ concat (map (failed_attempt ?req (nat max_retries) e) [0..<nat max_retries])\<rparr>)"
      let ?new = "[ClockRead (elapsed w), NewClient]
                            @ concat (map (failed_attempt ?req (nat max_retries) e) [0..<nat max_retries])"
      from run assms have "res = Inl retries_exhausted" "trace w' = trace w @ ?new" by auto
      moreover have "req = ?req" if "Invoke req \<in> set ?new" for req
        using that failed_attempts_events [of "Invoke req" ?req "nat max_retries" e "[0..<nat max_retries]"]
        by auto
      ultimately show ?thesis using fm body by (intro exI [of _ ?new]) auto
    next
      fix e s fin
      assume ok: "attempt_result env ?req (invocations w + s) = fin"
        and run: "send_prompt env messages temperature max_tokens top_p continuation max_retries w =
              (fin,
               w\<lparr>elapsed := elapsed w + 30 * s,
                 trace := trace w @ [ClockRead (elapsed w), NewClient]
                            @ concat (map (failed_attempt ?req (nat max_retries) e) [0..<s])
                            @ [Invoke ?req]\<rparr>)"
      let ?new = "[ClockRead (elapsed w), NewClient]
                            @ concat (map (failed_attempt ?req (nat max_retries) e) [0..<s])
                            @ [Invoke ?req]"
      from run assms have res: "res = fin" "trace w' = trace w @ ?new" by auto
      have reqs: "req = ?req" if "Invoke req \<in> set ?new" for req
        using that failed_attempts_events [of "Invoke req" ?req "nat max_retries" e "[0..<s]"]
        by auto
      have "\<exists>n req response raw text.
                 Invoke req \<in> set ?new \<and>
                 invoke_model env n req = Inr response \<and>
                 response ''body'' = Some (Inr raw) \<and>
                 utf8_decode env raw = Inr text \<and>
                 json_loads env text = Inr r" if "res = Inr r" for r
      proof -
        from that res ok have "attempt_result env ?req (invocations w + s) = Inr r" by simp
        then obtain response raw decoded where
          "invoke_model env (invocations w + s) ?req = Inr response"
          "response ''body'' = Some (Inr raw)" "utf8_decode env raw = Inr decoded" "json_loads env decoded = Inr r"
          by (auto simp: attempt_result_def read_body_def split: sum.splits option.splits)
        then show ?thesis
          by (intro exI [of _ "invocations w + s"] exI [of _ ?req] exI [of _ response] exI [of _ raw]
              exI [of _ decoded]) simp
      qed
      with res reqs fm body show ?thesis by (intro exI [of _ ?new]) auto
    qed
  qed
qed

text \<open>C8 on the endpoint that answers the third call.\<close>

theorem request_body_fields_witness:
  "fst (send_prompt (example_env third_time_lucky) [example_system, example_user] ''0.3'' 1000 ''0.9'' False 10 fresh_world)
     = Inr ''4'' \<and>
   (\<exists>n req response raw decoded.
      body req = JObject [(''prompt'', JStr example_prompt), (''temperature'', JFloat ''0.3''),
                          (''max_gen_len'', JInt 1000), (''top_p'', JFloat ''0.9'')] \<and>
      Invoke req \<in> set (trace (snd (send_prompt (example_env third_time_lucky) [example_system, example_user]
                                     ''0.3'' 1000 ''0.9'' False 10 fresh_world))) \<and>
      invoke_model (example_env third_time_lucky) n req = Inr response \<and>
      response ''body'' = Some (Inr raw) \<and>
      utf8_decode (example_env third_time_lucky) raw = Inr decoded \<and>
      json_loads (example_env third_time_lucky) decoded = Inr ''4'')"
proof -
  let ?E = "example_env third_time_lucky"
  let ?S = "send_prompt ?E [example_system, example_user] ''0.3'' 1000 ''0.9'' False 10 fresh_world"
  have fm: "format_messages (wall_clock ?E (elapsed fresh_world)) [example_system, example_user] = Inr example_prompt"
    by (simp add: example_env_def example_prompt_rendered)
  have cc: "create_client ?E = None"
    by (simp add: example_env_def)
  have d: "\<forall>i<2. attempt_result ?E (build_request ?E example_prompt ''0.3'' 1000 ''0.9'') (invocations fresh_world + i)
            = Inl ((\<lambda>i. Error ''ThrottlingException'' ''Too many requests'') i)"
    by (simp add: attempt_result_def example_env_def third_time_lucky_def fresh_world_def invocations_def)
  have e: "attempt_result ?E (build_request ?E example_prompt ''0.3'' 1000 ''0.9'') (invocations fresh_world + 2) = Inr ''4''"
    by (simp add: attempt_result_def read_body_def example_env_def third_time_lucky_def fresh_world_def invocations_def)
  have x: "\<forall>i<2. is_Exception ((\<lambda>i. Error ''ThrottlingException'' ''Too many requests'') i)"
    by simp
  have "(2::nat) < 10" by simp
  from send_prompt_succeeds [OF fm cc d x e this, of False]
  obtain w' where returned: "?S = (Inr ''4'', w')" by simp
  from request_body_fields [OF returned] fm
  show ?thesis
    unfolding returned by (simp add: fresh_world_def) blast
qed

text \<open>
  Claim C9. A call of \<^verbatim>\<open>send_prompt\<close> reads the clock exactly once, before anything
  else, and every attempt sends the same request: the one built from the prompt
  rendered with the clock reading at the time of the call, however much time the
  retries take.
\<close>

theorem rendered_once:
  assumes "send_prompt env messages temperature max_tokens top_p continuation max_retries w = (res, w')"
  shows "\<exists>rest. trace w' = trace w @ ClockRead (elapsed w) # rest \<and>
           filter is_ClockRead rest = [] \<and>
           (\<forall>req. Invoke req \<in> set rest \<longrightarrow>
              (\<exists>p. format_messages (wall_clock env (elapsed w)) messages = Inr p \<and>
                   req = build_request env p temperature max_tokens top_p))"
proof (cases "format_messages (wall_clock env (elapsed w)) messages")
  case (Inl x)
  with assms have "trace w' = trace w @ [ClockRead (elapsed w)]"
    by (auto simp: send_prompt_def emit_def)
  then show ?thesis by simp
next
  case (Inr p)
  note fm = this
  show ?thesis
  proof (cases "create_client env")
    case (Some x)
    with assms fm have "trace w' = trace w @ [ClockRead (elapsed w)]"
      by (auto simp: send_prompt_def emit_def)
    then show ?thesis by simp
  next
    case None
    let ?req = "build_request env p temperature max_tokens top_p"
    from send_prompt_trace [OF fm None assms]
    obtain e s last_call where
      t: "trace w' = trace w @ [ClockRead (elapsed w), NewClient]
                  @ concat (map (failed_attempt ?req (nat max_retries) e) [0..<s]) @ last_call"
      and lc: "last_call = [] \<or> last_call = [Invoke ?req]"
      by blast
    let ?rest = "NewClient # concat (map (failed_attempt ?req (nat max_retries) e) [0..<s]) @ last_call"
    from t have "trace w' = trace w @ ClockRead (elapsed w) # ?rest" by simp
    moreover have "filter is_ClockRead ?rest = []"
      using lc by (auto simp: failed_attempts_clock)
    moreover have "req = ?req" if "Invoke req \<in> set ?rest" for req
      using that lc failed_attempts_events [of "Invoke req" ?req "nat max_retries" e "[0..<s]"] by auto
    ultimately show ?thesis using fm by (intro exI [of _ ?rest]) auto
  qed
qed

text \<open>
  C9 on a call made twenty seconds before midnight of 31 December: the two retries sleep
  into January, and all three requests carry the prompt dated 31 Dec 2026.
\<close>

theorem rendered_once_witness:
  "filter is_ClockRead (trace (snd (send_prompt new_year_env [example_system, example_user] ''0.3'' 1000 ''0.9'' False 10 fresh_world)))
     = [ClockRead 0] \<and>
   list_all (\<lambda>req. req = build_request new_year_env new_year_prompt ''0.3'' 1000 ''0.9'')
     (requests (trace (snd (send_prompt new_year_env [example_system, example_user] ''0.3'' 1000 ''0.9'' False 10 fresh_world)))) \<and>
   length (requests (trace (snd (send_prompt new_year_env [example_system, example_user] ''0.3'' 1000 ''0.9'' False 10 fresh_world)))) = 3 \<and>
   month (wall_clock new_year_env
     (elapsed (snd (send_prompt new_year_env [example_system, example_user] ''0.3'' 1000 ''0.9'' False 10 fresh_world)))) = Jan"
proof -
  let ?E = "new_year_env"
  let ?S = "send_prompt ?E [example_system, example_user] ''0.3'' 1000 ''0.9'' False 10 fresh_world"
  let ?req = "build_request ?E new_year_prompt ''0.3'' 1000 ''0.9''"
  have fm: "format_messages (wall_clock ?E (elapsed fresh_world)) [example_system, example_user] = Inr new_year_prompt"
    by (simp add: new_year_env_def example_env_def fresh_world_def new_year_prompt_rendered)
  have cc: "create_client ?E = None"
    by (simp add: new_year_env_def example_env_def)
  have d: "\<forall>i<2. attempt_result ?E ?req (invocations fresh_world + i)
            = Inl ((\<lambda>i. Error ''ThrottlingException'' ''Too many requests'') i)"
    by (simp add: attempt_result_def new_year_env_def example_env_def third_time_lucky_def fresh_world_def invocations_def)
  have e: "attempt_result ?E ?req (invocations fresh_world + 2) = Inr ''4''"
    by (simp add: attempt_result_def read_body_def new_year_env_def example_env_def third_time_lucky_def
        fresh_world_def invocations_def)
  have x: "\<forall>i<2. is_Exception ((\<lambda>i. Error ''ThrottlingException'' ''Too many requests'') i)"
    by simp
  have "(2::nat) < 10" by simp
  from send_prompt_succeeds [OF fm cc d x e this, of False]
  obtain w' where S: "?S = (Inr ''4'', w')" and el: "elapsed w' = 60"
    and n: "length (filter is_Invoke (trace w')) = 3"
    by (simp add: fresh_world_def failed_attempts_invokes)
  have len: "length (requests evs) = length (filter is_Invoke evs)" for evs :: "string event list"
    by (induction evs rule: requests.induct) simp_all
  from rendered_once [OF S] fm obtain rest where
    t: "trace w' = ClockRead 0 # rest" and c: "filter is_ClockRead rest = []"
    and r: "\<forall>req. Invoke req \<in> set rest \<longrightarrow> req = ?req"
    by (auto simp: fresh_world_def)
  from r have "list_all (\<lambda>req. req = ?req) (requests (trace w'))"
    by (simp add: t list_all_iff requests_set)
  with t c el n len [of "trace w'"] show ?thesis
    unfolding S by (simp add: new_year_env_def new_year_clock_def)
qed

end
